(* ===== verification/Prelude.thy ===== *)
theory Prelude
  imports Main "HOL-Library.Word" "HOL-Library.Monad_Syntax"
begin

text \<open>
  Shared ground of the libpqwire development: the machine types of the C code, checked
  access to memory, and the list, option and word lemmas the components use.

  Machine types. \<open>uint8_t\<close>, \<open>uint16_t\<close>, \<open>uint32_t\<close> and \<open>uint64_t\<close> are words of that
  width; \<open>int16_t\<close> and \<open>int32_t\<close> are the same words, read with \<open>sint\<close> where the code
  tests their sign. \<open>size_t\<close> quantities (offsets, capacities, lengths of objects that exist
  in memory) are \<open>nat\<close>; where the code narrows one to 32 bits the model narrows it with
  \<open>of_nat\<close>.

  Faults. Every access to an array is checked: \<open>None\<close> as the result of an operation means
  that the C code has left an object's bounds (undefined behaviour). The error codes of the
  C functions (\<open>-1\<close>, \<open>NULL\<close>, early \<open>return\<close>) are ordinary values and never \<open>None\<close> at
  that level.
\<close>

unbundle bit_operations_syntax

type_synonym byte = "8 word"
type_synonym bytes = "byte list"
type_synonym u16 = "16 word"
type_synonym u32 = "32 word"
type_synonym u64 = "64 word"

named_theorems wire_simps \<open>layout of the encoded fields: lengths and read-back\<close>
named_theorems no_fault \<open>operations that never leave an object's bounds\<close>

text \<open>A character of the source text as the byte it stands for, and a string literal.\<close>

abbreviation ascii :: "char \<Rightarrow> byte" where
  "ascii ch \<equiv> of_char ch"

abbreviation text_of :: "string \<Rightarrow> bytes" where
  "text_of s \<equiv> map of_char s"

section \<open>Checked memory\<close>

text \<open>
  \<open>peek\<close> is \<open>b[i]\<close>; \<open>store\<close> is \<open>a[i] = v\<close>; \<open>mem_read\<close> reads \<open>n\<close> bytes at \<open>off\<close>;
  \<open>poke\<close> is \<open>memcpy(buf + off, bs, len)\<close>; \<open>put\<close> appends \<open>bs\<close> to the filled part of a
  buffer of \<open>cap\<close> bytes, as the serialisers do with their cursor \<open>p\<close>.
\<close>

definition peek :: "'a list \<Rightarrow> nat \<Rightarrow> 'a option" where
  "peek b i = (if i < length b then Some (b ! i) else None)"

definition store :: "'a list \<Rightarrow> nat \<Rightarrow> 'a \<Rightarrow> 'a list option" where
  "store a i v = (if i < length a then Some (a[i := v]) else None)"

definition mem_read :: "'a list \<Rightarrow> nat \<Rightarrow> nat \<Rightarrow> 'a list option" where
  "mem_read b off n = (if off + n \<le> length b then Some (take n (drop off b)) else None)"

definition poke :: "'a list \<Rightarrow> nat \<Rightarrow> 'a list \<Rightarrow> 'a list option" where
  "poke b off bs =
     (if off + length bs \<le> length b
      then Some (take off b @ bs @ drop (off + length bs) b) else None)"

definition put :: "nat \<Rightarrow> bytes \<Rightarrow> bytes \<Rightarrow> bytes option" where
  "put cap acc bs = (if length acc + length bs \<le> cap then Some (acc @ bs) else None)"

lemma peek_Some [simp]: "i < length b \<Longrightarrow> peek b i = Some (b ! i)"
  by (simp add: peek_def)

lemma store_Some [simp]: "i < length a \<Longrightarrow> store a i v = Some (a[i := v])"
  by (simp add: store_def)

lemma store_SomeD: "store a i v = Some a' \<Longrightarrow> i < length a \<and> a' = a[i := v]"
  by (simp add: store_def split: if_splits)

lemma mem_read_Some [simp]:
  "off + n \<le> length b \<Longrightarrow> mem_read b off n = Some (take n (drop off b))"
  by (simp add: mem_read_def)

lemma mem_read_SomeD:
  "mem_read b off n = Some bs \<Longrightarrow> off + n \<le> length b \<and> bs = take n (drop off b) \<and> length bs = n"
  by (auto simp: mem_read_def split: if_splits)

lemma poke_Some [simp]:
  "off + length bs \<le> length b \<Longrightarrow>
   poke b off bs = Some (take off b @ bs @ drop (off + length bs) b)"
  by (simp add: poke_def)

lemma poke_SomeD:
  "poke b off bs = Some b' \<Longrightarrow>
   off + length bs \<le> length b \<and> b' = take off b @ bs @ drop (off + length bs) b \<and>
   length b' = length b"
  by (auto simp: poke_def split: if_splits)

lemma put_Some [simp]: "length acc + length bs \<le> cap \<Longrightarrow> put cap acc bs = Some (acc @ bs)"
  by (simp add: put_def)

lemma put_SomeD:
  "put cap acc bs = Some acc' \<Longrightarrow> acc' = acc @ bs \<and> length acc' \<le> cap"
  by (auto simp: put_def split: if_splits)

lemma put_None: "cap < length acc + length bs \<Longrightarrow> put cap acc bs = None"
  by (simp add: put_def)

section \<open>Option monad\<close>

lemma bind_ne_None_iff:
  "Option.bind m f \<noteq> None \<longleftrightarrow> (\<exists>x. m = Some x \<and> f x \<noteq> None)"
  by (cases m) auto

lemma bind_SomeD:
  "Option.bind m f = Some y \<Longrightarrow> \<exists>x. m = Some x \<and> f x = Some y"
  by (cases m) auto

section \<open>Lists\<close>

lemma take_drop_append:
  "n \<le> length xs \<Longrightarrow> take n xs @ drop n xs = xs"
  by simp

lemma take_take_drop:
  "m \<le> n \<Longrightarrow> take m (drop k (take (k + n) xs)) = take m (drop k xs)"
  by (simp add: drop_take)

lemma fill_from:
  \<comment> \<open>an array whose cells from \<open>i\<close> on are overwritten by \<open>v # vs\<close>\<close>
  assumes "i + length (v # vs) \<le> length a"
  shows "take (Suc i) (a[i := v]) @ vs @ drop (Suc i + length vs) (a[i := v]) =
         take i a @ (v # vs) @ drop (i + length (v # vs)) a"
  using assms by (simp add: take_Suc_conv_app_nth)

section \<open>Words\<close>

lemma mask_FF [simp]: "(x :: 'a::len word) AND 0xFF = take_bit 8 x"
  by (simp add: take_bit_eq_mask mask_eq_exp_minus_1)

lemma unat_of_nat_small:
  "n < 2 ^ LENGTH('a) \<Longrightarrow> unat (of_nat n :: 'a::len word) = n"
  by (simp add: unat_of_nat)

lemma sint_of_nat_small32:
  assumes "n < 2 ^ 31"
  shows "sint (of_nat n :: u32) = int n"
proof -
  have "sint (of_nat n :: u32) = signed_take_bit 31 (int n)"
    by (simp add: signed_of_nat)
  also have "\<dots> = int n"
    by (rule signed_take_bit_int_eq_self) (use assms in auto)
  finally show ?thesis .
qed

end
