(* ===== verification/Bytes.thy ===== *)
theory Bytes
  imports Prelude
begin

text \<open>
  The byte-level helpers of \<open>src/src/pqwire.c\<close>: big-endian fields (\<open>wr32_be\<close>,
  \<open>wr16_be\<close>, \<open>rd32_be\<close>, \<open>rd16_be\<close>), NUL-terminated strings (\<open>read_cstr\<close>,
  \<open>copy_cstr\<close>), and the C library functions the parsers call on them.

  A \<open>const char *\<close> is modelled by the bytes before its terminating NUL (\<open>is_cstr\<close> says
  that such a list holds no NUL itself). A \<open>char\<close> array that is only ever written by
  \<open>memset(.., 0, ..)\<close> and \<open>copy_cstr\<close> is modelled by the string it holds;
  \<open>copy_cstr_array\<close> is the same operation on the array itself, and
  \<open>copy_cstr_array_holds\<close> relates the two.
\<close>

section \<open>Big-endian fields\<close>

text \<open>\<open>wr32_be\<close> and \<open>wr16_be\<close>: the bytes stored at \<open>p\<close>.\<close>

definition wr32_be :: "u32 \<Rightarrow> bytes" where
  "wr32_be v =
     [ucast (drop_bit 24 v AND 0xFF), ucast (drop_bit 16 v AND 0xFF),
      ucast (drop_bit 8 v AND 0xFF), ucast (v AND 0xFF)]"

definition wr16_be :: "u16 \<Rightarrow> bytes" where
  "wr16_be v = [ucast (drop_bit 8 v AND 0xFF), ucast (v AND 0xFF)]"

text \<open>\<open>rd32_be\<close> and \<open>rd16_be\<close>: the field at offset \<open>off\<close> of the object \<open>p\<close>.\<close>

definition rd32_be :: "bytes \<Rightarrow> nat \<Rightarrow> u32 option" where
  "rd32_be p off = do {
     a \<leftarrow> peek p off;
     b \<leftarrow> peek p (off + 1);
     c \<leftarrow> peek p (off + 2);
     d \<leftarrow> peek p (off + 3);
     Some (push_bit 24 (ucast a) OR push_bit 16 (ucast b) OR push_bit 8 (ucast c) OR ucast d)
   }"

definition rd16_be :: "bytes \<Rightarrow> nat \<Rightarrow> u16 option" where
  "rd16_be p off = do {
     a \<leftarrow> peek p off;
     b \<leftarrow> peek p (off + 1);
     Some (push_bit 8 (ucast a) OR ucast b)
   }"

text \<open>
  The parsers read runs of fields into fixed arrays with one loop shape,
  \<open>for (; i < n && off + w <= body_len; i++) { arr[i] = dec(body + off); off += w; }\<close>.
\<close>

function read_array ::
  "(bytes \<Rightarrow> nat \<Rightarrow> 'v option) \<Rightarrow> nat \<Rightarrow> nat \<Rightarrow> nat \<Rightarrow> bytes \<Rightarrow> nat \<Rightarrow> 'v list \<Rightarrow> ('v list \<times> nat) option"
where
  "read_array dec w i n b off arr =
     (if i < n \<and> off + w \<le> length b
      then do {
        v \<leftarrow> dec b off;
        arr' \<leftarrow> store arr i v;
        read_array dec w (Suc i) n b (off + w) arr'
      }
      else Some (arr, off))"
  by pat_completeness auto
termination
  by (relation "measure (\<lambda>(dec, w, i, n, b, off, arr). n - i)") auto

declare read_array.simps [simp del]

section \<open>NUL-terminated strings\<close>

text \<open>
  \<open>read_cstr\<close> on the \<open>avail\<close> bytes at \<open>p\<close>: the string before the first NUL and the
  number of bytes consumed with it, or \<open>None\<close> where the C function returns \<open>NULL\<close>.
  \<open>read_cstr_at b off\<close> is the call \<open>read_cstr(body + off, body_len - off, &c)\<close>; an offset
  beyond the body would make the unsigned difference wrap, which is a fault here.
\<close>

fun read_cstr :: "bytes \<Rightarrow> (bytes \<times> nat) option" where
  "read_cstr [] = None"
| "read_cstr (x # xs) =
     (if x = 0 then Some ([], 1)
      else map_option (\<lambda>(s, c). (x # s, Suc c)) (read_cstr xs))"

definition read_cstr_at :: "bytes \<Rightarrow> nat \<Rightarrow> (bytes \<times> nat) option option" where
  "read_cstr_at b off = (if off \<le> length b then Some (read_cstr (drop off b)) else None)"

definition is_cstr :: "bytes \<Rightarrow> bool" where
  "is_cstr s \<longleftrightarrow> 0 \<notin> set s"

text \<open>The string an array holds, and \<open>strncpy\<close> into an array of \<open>n\<close> bytes.\<close>

definition cstr_of :: "bytes \<Rightarrow> bytes" where
  "cstr_of arr = takeWhile (\<lambda>b. b \<noteq> 0) arr"

definition strncpy :: "bytes \<Rightarrow> bytes \<Rightarrow> nat \<Rightarrow> bytes" where
  "strncpy dst src n = take n (src @ replicate (n - length src) 0) @ drop n dst"

text \<open>
  \<open>copy_cstr(dst, dstsz, src)\<close>; \<open>src = None\<close> is the \<open>NULL\<close> pointer. First on the string
  the destination holds, then on the destination array itself.
\<close>

definition copy_cstr :: "nat \<Rightarrow> bytes option \<Rightarrow> bytes" where
  "copy_cstr dstsz src = (case src of None \<Rightarrow> [] | Some s \<Rightarrow> take (dstsz - 1) s)"

definition copy_cstr_array :: "bytes \<Rightarrow> bytes option \<Rightarrow> bytes" where
  "copy_cstr_array dst src =
     (if dst = [] then dst
      else case src of
        None \<Rightarrow> dst[0 := 0]
      | Some s \<Rightarrow> (strncpy dst s (length dst - 1))[length dst - 1 := 0])"

text \<open>
  \<open>atoi\<close>, as the C library computes it: \<open>strtol\<close> in base 10 with a 64-bit \<open>long\<close>
  (saturating) and the conversion of the result to a 32-bit \<open>int\<close>.
\<close>

definition is_space :: "byte \<Rightarrow> bool" where
  "is_space b \<longleftrightarrow> b = 32 \<or> 9 \<le> b \<and> b \<le> 13"

definition is_digit :: "byte \<Rightarrow> bool" where
  "is_digit b \<longleftrightarrow> 48 \<le> b \<and> b \<le> 57"

definition decimal :: "bytes \<Rightarrow> nat" where
  "decimal s = foldl (\<lambda>n d. 10 * n + (unat d - 48)) 0 (takeWhile is_digit s)"

definition strtol :: "bytes \<Rightarrow> int" where
  "strtol s =
     (let s = dropWhile is_space s;
          (neg, s) = (case s of
             [] \<Rightarrow> (False, [])
           | b # r \<Rightarrow> if b = ascii (CHR ''-'') then (True, r)
                      else if b = ascii (CHR ''+'') then (False, r) else (False, s));
          v = int (decimal s)
      in max (- (2 ^ 63)) (min (2 ^ 63 - 1) (if neg then - v else v)))"

definition atoi :: "bytes \<Rightarrow> int" where
  "atoi s = signed_take_bit 31 (strtol s)"

section \<open>A cursor into a buffer\<close>

text \<open>\<open>field_at b off xs\<close>: the cursor \<open>off\<close> is inside \<open>b\<close> and \<open>xs\<close> is what is left to read.\<close>

definition field_at :: "bytes \<Rightarrow> nat \<Rightarrow> bytes \<Rightarrow> bool" where
  "field_at b off xs \<longleftrightarrow> off \<le> length b \<and> drop off b = xs"

lemma field_at_start [simp]: "field_at b 0 b"
  by (simp add: field_at_def)

lemma field_at_length: "field_at b off xs \<Longrightarrow> length b = off + length xs"
  by (auto simp: field_at_def)

lemma field_at_prefix:
  "field_at b off xs \<Longrightarrow> \<exists>pre. b = pre @ xs \<and> length pre = off"
  by (rule exI [of _ "take off b"]) (auto simp: field_at_def)

lemma field_at_split:
  assumes "field_at b off (xs @ ys)"
  shows "field_at b (off + length xs) ys"
  using field_at_prefix [OF assms] by (auto simp: field_at_def)

section \<open>Fixed-width codecs\<close>

text \<open>
  The contract the parsers rely on for a fixed-width field: reading back what was written,
  and reading never leaves a buffer that holds the field. The two array lemmas are proved
  once for every such codec.
\<close>

locale field_codec =
  fixes enc :: "'v \<Rightarrow> bytes" and dec :: "bytes \<Rightarrow> nat \<Rightarrow> 'v option" and w :: nat
  assumes enc_length: "length (enc v) = w"
    and dec_enc: "dec (pre @ enc v @ post) (length pre) = Some v"
    and dec_defined: "off + w \<le> length b \<Longrightarrow> \<exists>v. dec b off = Some v"
begin

lemma dec_field_at:
  assumes "field_at b off (enc v @ xs)"
  shows "dec b off = Some v" and "field_at b (off + w) xs" and "off + w \<le> length b"
proof -
  from field_at_prefix [OF assms] obtain pre where "b = pre @ enc v @ xs" "length pre = off"
    by auto
  then show "dec b off = Some v" using dec_enc by auto
  show "field_at b (off + w) xs" using field_at_split [OF assms] by (simp add: enc_length)
  show "off + w \<le> length b" using field_at_length [OF assms] by (simp add: enc_length)
qed

lemma length_encs: "length (concat (map enc vs)) = w * length vs"
  by (induction vs) (simp_all add: enc_length)

lemma read_array_defined:
  "n \<le> length arr \<Longrightarrow> off \<le> length b \<Longrightarrow>
   \<exists>arr' off'. read_array dec w i n b off arr = Some (arr', off') \<and>
     length arr' = length arr \<and> off' \<le> length b"
proof (induction "n - i" arbitrary: i off arr)
  case 0
  then show ?case by (subst read_array.simps) auto
next
  case (Suc k)
  show ?case
  proof (cases "off + w \<le> length b")
    case True
    then obtain v where v: "dec b off = Some v" using dec_defined by blast
    have "\<exists>arr' off'. read_array dec w (Suc i) n b (off + w) (arr[i := v]) = Some (arr', off') \<and>
        length arr' = length (arr[i := v]) \<and> off' \<le> length b"
      by (rule Suc.hyps(1)) (use Suc.hyps(2) Suc.prems True in auto)
    with Suc.hyps(2) Suc.prems True v show ?thesis
      by (subst read_array.simps) (auto simp: store_def)
  next
    case False
    with Suc.prems show ?thesis by (subst read_array.simps) auto
  qed
qed

lemma read_array_encs:
  "field_at b off (concat (map enc vs) @ xs) \<Longrightarrow> i + length vs = n \<Longrightarrow> n \<le> length arr \<Longrightarrow>
   read_array dec w i n b off arr =
     Some (take i arr @ vs @ drop n arr, off + w * length vs)"
proof (induction vs arbitrary: i off arr)
  case Nil
  then show ?case by (subst read_array.simps) simp
next
  case (Cons v vs)
  have f: "field_at b off (enc v @ concat (map enc vs) @ xs)" using Cons.prems(1) by simp
  note d = dec_field_at [OF f]
  have "read_array dec w i n b off arr = read_array dec w (Suc i) n b (off + w) (arr[i := v])"
    using Cons.prems d by (subst read_array.simps) (simp add: store_def)
  also have "\<dots> = Some (take (Suc i) (arr[i := v]) @ vs @ drop n (arr[i := v]), off + w + w * length vs)"
    by (rule Cons.IH) (use d(2) Cons.prems in auto)
  also have "\<dots> = Some (take i arr @ (v # vs) @ drop n arr, off + w * length (v # vs))"
    using fill_from [of i v vs arr] Cons.prems by auto
  finally show ?case .
qed

lemma field_at_encs:
  "field_at b off (concat (map enc vs) @ xs) \<Longrightarrow> field_at b (off + w * length vs) xs"
  using field_at_split [of b off "concat (map enc vs)" xs] by (simp add: length_encs)

end

lemma length_wr32_be [simp, wire_simps]: "length (wr32_be v) = 4"
  by (simp add: wr32_be_def)

lemma length_wr16_be [simp, wire_simps]: "length (wr16_be v) = 2"
  by (simp add: wr16_be_def)

lemma join32:
  "push_bit 24 (ucast (ucast (take_bit 8 (drop_bit 24 v)) :: byte)) OR
   push_bit 16 (ucast (ucast (take_bit 8 (drop_bit 16 v)) :: byte)) OR
   push_bit 8 (ucast (ucast (take_bit 8 (drop_bit 8 v)) :: byte)) OR
   ucast (ucast (take_bit 8 v) :: byte) = (v :: u32)" (is "?l = v")
proof (rule bit_word_eqI)
  fix n assume "n < LENGTH(32)"
  then consider "n < 8" | "8 \<le> n" "n < 16" | "16 \<le> n" "n < 24" | "24 \<le> n" "n < 32"
    by fastforce
  then show "bit ?l n = bit v n"
    by cases (auto simp: bit_simps)
qed

lemma join16:
  "push_bit 8 (ucast (ucast (take_bit 8 (drop_bit 8 v)) :: byte)) OR
   ucast (ucast (take_bit 8 v) :: byte) = (v :: u16)" (is "?l = v")
proof (rule bit_word_eqI)
  fix n assume "n < LENGTH(16)"
  then consider "n < 8" | "8 \<le> n" "n < 16" by fastforce
  then show "bit ?l n = bit v n"
    by cases (auto simp: bit_simps)
qed

interpretation be32: field_codec wr32_be rd32_be 4
proof unfold_locales
  fix v pre post
  show "rd32_be (pre @ wr32_be v @ post) (length pre) = Some v"
    by (simp add: rd32_be_def wr32_be_def nth_append join32)
next
  fix off and b :: bytes assume "off + 4 \<le> length b"
  then show "\<exists>v. rd32_be b off = Some v" by (simp add: rd32_be_def)
qed simp

interpretation be16: field_codec wr16_be rd16_be 2
proof unfold_locales
  fix v pre post
  show "rd16_be (pre @ wr16_be v @ post) (length pre) = Some v"
    by (simp add: rd16_be_def wr16_be_def nth_append join16)
next
  fix off and b :: bytes assume "off + 2 \<le> length b"
  then show "\<exists>v. rd16_be b off = Some v" by (simp add: rd16_be_def)
qed simp

section \<open>Strings\<close>

lemma read_cstr_nul [simp]:
  "is_cstr s \<Longrightarrow> read_cstr (s @ 0 # xs) = Some (s, Suc (length s))"
  by (induction s) (auto simp: is_cstr_def)

lemma read_cstr_SomeD:
  "read_cstr xs = Some (s, c) \<Longrightarrow>
   is_cstr s \<and> c = Suc (length s) \<and> c \<le> length xs \<and> xs = s @ 0 # drop c xs"
proof (induction xs arbitrary: s c)
  case (Cons x xs)
  then show ?case by (fastforce simp: is_cstr_def split: if_splits)
qed simp

lemma read_cstr_None_iff: "read_cstr xs = None \<longleftrightarrow> 0 \<notin> set xs"
  by (induction xs) auto

lemma read_cstr_at_defined:
  "off \<le> length b \<Longrightarrow> read_cstr_at b off = Some (read_cstr (drop off b))"
  by (simp add: read_cstr_at_def)

lemma read_cstr_at_SomeD:
  assumes "read_cstr_at b off = Some (Some (s, c))"
  shows "is_cstr s" "c = Suc (length s)" "off + c \<le> length b"
  using assms read_cstr_SomeD [of "drop off b" s c]
  by (auto simp: read_cstr_at_def split: if_splits)

lemma cstr_field_at:
  assumes "field_at b off (s @ 0 # xs)" and "is_cstr s"
  shows "read_cstr_at b off = Some (Some (s, Suc (length s)))"
    and "field_at b (off + Suc (length s)) xs"
proof -
  show "read_cstr_at b off = Some (Some (s, Suc (length s)))"
    using assms by (simp add: read_cstr_at_def field_at_def)
  have "field_at b off ((s @ [0]) @ xs)" using assms(1) by simp
  from field_at_split [OF this] show "field_at b (off + Suc (length s)) xs" by simp
qed

lemma is_cstr_take [simp]: "is_cstr s \<Longrightarrow> is_cstr (take n s)"
  by (auto simp: is_cstr_def dest: in_set_takeD)

lemma is_cstr_Nil [simp]: "is_cstr []"
  by (simp add: is_cstr_def)

lemma is_cstr_cstr_of [simp]: "is_cstr (cstr_of s)"
  by (auto simp: is_cstr_def cstr_of_def dest: set_takeWhileD)

lemma cstr_of_cstr: "is_cstr s \<Longrightarrow> cstr_of (s @ 0 # xs) = s"
  by (induction s) (auto simp: cstr_of_def is_cstr_def)

lemma cstr_of_id: "is_cstr s \<Longrightarrow> cstr_of s = s"
  by (induction s) (auto simp: cstr_of_def is_cstr_def)

lemma copy_cstr_short: "length s < n \<Longrightarrow> copy_cstr n (Some s) = s"
  by (simp add: copy_cstr_def)

lemma length_copy_cstr: "0 < n \<Longrightarrow> length (copy_cstr n s) < n"
  by (auto simp: copy_cstr_def split: option.split)

lemma is_cstr_copy_cstr: "(\<And>s. src = Some s \<Longrightarrow> is_cstr s) \<Longrightarrow> is_cstr (copy_cstr n src)"
  by (auto simp: copy_cstr_def split: option.split)

text \<open>
  The string-level \<open>copy_cstr\<close> is what a reader of the destination array sees: the array
  keeps its size, ends in NUL, and holds exactly that string.
\<close>

lemma copy_cstr_array_holds:
  assumes "dst \<noteq> []" and "\<And>s. src = Some s \<Longrightarrow> is_cstr s"
  shows "length (copy_cstr_array dst src) = length dst"
    and "cstr_of (copy_cstr_array dst src) = copy_cstr (length dst) src"
proof -
  obtain ini l where d: "dst = ini @ [l]" using assms(1) by (cases dst rule: rev_cases) auto
  show "length (copy_cstr_array dst src) = length dst"
    by (auto simp: copy_cstr_array_def strncpy_def d split: option.split)
  show "cstr_of (copy_cstr_array dst src) = copy_cstr (length dst) src"
  proof (cases src)
    case None
    then show ?thesis
      by (cases dst) (auto simp: copy_cstr_array_def copy_cstr_def cstr_of_def)
  next
    case (Some s)
    let ?n = "length ini"
    have t: "take ?n (s @ replicate (?n - length s) 0) = take ?n s @ replicate (?n - length s) 0"
      by (simp add: min_def)
    have "copy_cstr_array dst src = take ?n s @ replicate (?n - length s) 0 @ [0]"
      by (simp add: copy_cstr_array_def Some d strncpy_def t list_update_append min_def)
    also have "\<dots> = take ?n s @ 0 # replicate (?n - length s) 0"
      by (simp add: replicate_append_same)
    finally show ?thesis
      using assms(2) Some by (simp add: cstr_of_cstr copy_cstr_def d)
  qed
qed

lemma atoi_range: "- (2 ^ 31) \<le> atoi s \<and> atoi s < 2 ^ 31"
  using signed_take_bit_int_greater_eq_minus_exp [of 31 "strtol s"]
    signed_take_bit_int_less_exp [of 31 "strtol s"]
  by (simp add: atoi_def)

end
