(* ===== verification/Events.thy ===== *)
theory Events
  imports Bytes
begin

text \<open>
  The types of \<open>src/include/protocol_events.h\<close>: event types, payload structures and the
  event itself.

  Pointers. A string pointer of an event points into one of the context's scratch buffers
  (\<open>scratch_ptr\<close>); a data pointer points into the input buffer or the row arena
  (\<open>data_ptr\<close>). Events therefore do not hold the data: what a pointer means depends on
  the context at the time it is followed. \<open>InBuf e o\<close> is offset \<open>o\<close> of the input buffer
  as it was allocated in epoch \<open>e\<close>: a \<open>realloc\<close> that grows the buffer starts a new
  epoch, after which the old pointer may not be followed. Fixed arrays are lists of the
  declared length.
\<close>

datatype event_type =
    PROTOCOL_EVENT_NONE
  | PQ_EVENT_STARTUP | PQ_EVENT_AUTHENTICATION_OK | PQ_EVENT_READY_FOR_QUERY
  | PQ_EVENT_QUERY | PQ_EVENT_ROW_DESCRIPTION | PQ_EVENT_DATA_ROW | PQ_EVENT_COMMAND_COMPLETE
  | PQ_EVENT_ERROR | PQ_EVENT_PROTOCOL_ERROR | PQ_EVENT_ERROR_RESPONSE | PQ_EVENT_NOTICE_RESPONSE
  | PQ_EVENT_PARSE | PQ_EVENT_BIND | PQ_EVENT_DESCRIBE | PQ_EVENT_EXECUTE | PQ_EVENT_CLOSE
  | PQ_EVENT_SYNC | PQ_EVENT_FLUSH | PQ_EVENT_TERMINATE
  | PQ_EVENT_PARSE_COMPLETE | PQ_EVENT_BIND_COMPLETE | PQ_EVENT_NO_DATA
  | PQ_EVENT_PORTAL_SUSPENDED | PQ_EVENT_CLOSE_COMPLETE | PQ_EVENT_PARAMETER_STATUS
  | PQ_EVENT_NOTIFICATION
  | PQ_EVENT_COPY_IN_RESPONSE | PQ_EVENT_COPY_OUT_RESPONSE | PQ_EVENT_COPY_BOTH_RESPONSE
  | PQ_EVENT_COPY_DATA | PQ_EVENT_COPY_DONE | PQ_EVENT_COPY_FAIL

datatype scratch_ptr = UserScratch | DbScratch | SqlScratch | TagScratch

datatype data_ptr = NullPtr | InBuf nat nat | Arena nat

section \<open>Limits\<close>

definition PQWIRE_MAX_ROW_COLUMNS :: nat where "PQWIRE_MAX_ROW_COLUMNS = 16"
definition PQWIRE_NOTIFY_PAYLOAD_MAX :: nat where "PQWIRE_NOTIFY_PAYLOAD_MAX = 8000"
definition PQWIRE_MAX_STMT_NAME :: nat where "PQWIRE_MAX_STMT_NAME = 64"
definition PQWIRE_MAX_PORTAL_NAME :: nat where "PQWIRE_MAX_PORTAL_NAME = 64"
definition PQWIRE_MAX_QUERY_LEN :: nat where "PQWIRE_MAX_QUERY_LEN = 4096"
definition PQWIRE_MAX_BIND_PARAMS :: nat where "PQWIRE_MAX_BIND_PARAMS = 32"
definition PQWIRE_MAX_PARAM_TYPES :: nat where "PQWIRE_MAX_PARAM_TYPES = 16"

lemmas limit_defs =
  PQWIRE_MAX_ROW_COLUMNS_def PQWIRE_NOTIFY_PAYLOAD_MAX_def PQWIRE_MAX_STMT_NAME_def
  PQWIRE_MAX_PORTAL_NAME_def PQWIRE_MAX_QUERY_LEN_def PQWIRE_MAX_BIND_PARAMS_def
  PQWIRE_MAX_PARAM_TYPES_def

section \<open>Payloads\<close>

text \<open>
  \<open>pq_column_desc_t\<close>. The name is a pointer: to a row of \<open>col_name_scratch\<close> in the
  descriptors a context hands out, to a caller's string in those it is given.
\<close>

record 'n pq_column_desc =
  cd_name :: "'n option"
  cd_oid :: u32
  cd_format :: u16

record pq_data_row =
  dr_data :: "data_ptr list"
  dr_len :: "nat list"
  dr_format :: "u16 list"
  dr_oid :: "u32 list"
  dr_n_columns :: nat

record pq_error =
  severity :: bytes
  code :: bytes
  message :: bytes
  detail :: bytes
  hint :: bytes
  position :: int

record pq_notification =
  nt_pid :: u32
  nt_channel :: bytes
  nt_payload :: bytes
  nt_payload_len :: nat

record pq_parse =
  pa_statement :: bytes
  pa_query :: bytes
  pa_n_param_types :: nat
  pa_param_type_oids :: "u32 list"

record pq_bind_param_view =
  pv_length :: u32
  pv_data :: data_ptr
  pv_format :: u16

record pq_bind =
  bi_portal :: bytes
  bi_statement :: bytes
  bi_n_formats :: nat
  bi_formats :: "u16 list"
  bi_n_params :: nat
  bi_params :: "pq_bind_param_view list"
  bi_n_result_formats :: nat
  bi_result_formats :: "u16 list"
  bi_raw_body :: data_ptr
  bi_raw_body_len :: nat

record pq_describe =
  de_target :: byte
  de_name :: bytes

record pq_execute =
  ex_portal :: bytes
  ex_max_rows :: u32

record pq_close =
  cl_target :: byte
  cl_name :: bytes

text \<open>The union of \<open>protocol_event_t\<close>; \<open>PNone\<close> is a payload left zeroed.\<close>

datatype event_payload =
    PNone
  | PStartup scratch_ptr scratch_ptr
  | PQuery scratch_ptr
  | PRowDesc nat
  | PDataRow pq_data_row
  | PCommandComplete scratch_ptr
  | PError pq_error
  | PNotification pq_notification
  | PParse pq_parse
  | PBind pq_bind
  | PDescribe pq_describe
  | PExecute pq_execute
  | PClose pq_close
  | PRaw data_ptr nat

record protocol_event =
  ev_type :: event_type
  ev_payload :: event_payload

section \<open>Zeroed structures\<close>

text \<open>What \<open>memset(&ev, 0, sizeof(ev))\<close> leaves in each structure.\<close>

definition zero_event :: protocol_event where
  "zero_event = \<lparr>ev_type = PROTOCOL_EVENT_NONE, ev_payload = PNone\<rparr>"

definition plain_event :: "event_type \<Rightarrow> protocol_event" where
  "plain_event t = zero_event\<lparr>ev_type := t\<rparr>"

definition zero_data_row :: pq_data_row where
  "zero_data_row =
     \<lparr>dr_data = replicate PQWIRE_MAX_ROW_COLUMNS NullPtr,
      dr_len = replicate PQWIRE_MAX_ROW_COLUMNS 0,
      dr_format = replicate PQWIRE_MAX_ROW_COLUMNS 0,
      dr_oid = replicate PQWIRE_MAX_ROW_COLUMNS 0,
      dr_n_columns = 0\<rparr>"

definition zero_error :: pq_error where
  "zero_error = \<lparr>severity = [], code = [], message = [], detail = [], hint = [], position = 0\<rparr>"

definition zero_notification :: pq_notification where
  "zero_notification = \<lparr>nt_pid = 0, nt_channel = [], nt_payload = [], nt_payload_len = 0\<rparr>"

definition zero_parse :: pq_parse where
  "zero_parse =
     \<lparr>pa_statement = [], pa_query = [], pa_n_param_types = 0,
      pa_param_type_oids = replicate PQWIRE_MAX_PARAM_TYPES 0\<rparr>"

definition zero_param_view :: pq_bind_param_view where
  "zero_param_view = \<lparr>pv_length = 0, pv_data = NullPtr, pv_format = 0\<rparr>"

definition zero_bind :: pq_bind where
  "zero_bind =
     \<lparr>bi_portal = [], bi_statement = [],
      bi_n_formats = 0, bi_formats = replicate PQWIRE_MAX_BIND_PARAMS 0,
      bi_n_params = 0, bi_params = replicate PQWIRE_MAX_BIND_PARAMS zero_param_view,
      bi_n_result_formats = 0, bi_result_formats = replicate PQWIRE_MAX_BIND_PARAMS 0,
      bi_raw_body = NullPtr, bi_raw_body_len = 0\<rparr>"

definition zero_describe :: pq_describe where
  "zero_describe = \<lparr>de_target = 0, de_name = []\<rparr>"

definition zero_execute :: pq_execute where
  "zero_execute = \<lparr>ex_portal = [], ex_max_rows = 0\<rparr>"

definition zero_close :: pq_close where
  "zero_close = \<lparr>cl_target = 0, cl_name = []\<rparr>"

lemmas zero_defs =
  zero_event_def plain_event_def zero_data_row_def zero_error_def zero_notification_def
  zero_parse_def zero_param_view_def zero_bind_def zero_describe_def zero_execute_def
  zero_close_def

section \<open>Well-formed payloads\<close>

text \<open>
  What the parsers guarantee of a payload: strings fit their arrays and are terminated,
  arrays have their declared size, and every count stays within its array.
\<close>

definition fits :: "nat \<Rightarrow> bytes \<Rightarrow> bool" where
  "fits n s \<longleftrightarrow> length s < n \<and> is_cstr s"

definition wf_error :: "pq_error \<Rightarrow> bool" where
  "wf_error e \<longleftrightarrow>
     fits 32 (severity e) \<and> fits 8 (code e) \<and> fits 256 (message e) \<and>
     fits 256 (detail e) \<and> fits 256 (hint e) \<and>
     - (2 ^ 31) \<le> position e \<and> position e < 2 ^ 31"

definition wf_data_row :: "pq_data_row \<Rightarrow> bool" where
  "wf_data_row r \<longleftrightarrow>
     length (dr_data r) = PQWIRE_MAX_ROW_COLUMNS \<and> length (dr_len r) = PQWIRE_MAX_ROW_COLUMNS \<and>
     length (dr_format r) = PQWIRE_MAX_ROW_COLUMNS \<and> length (dr_oid r) = PQWIRE_MAX_ROW_COLUMNS \<and>
     dr_n_columns r \<le> PQWIRE_MAX_ROW_COLUMNS"

definition wf_notification :: "pq_notification \<Rightarrow> bool" where
  "wf_notification n \<longleftrightarrow>
     fits 64 (nt_channel n) \<and> fits (PQWIRE_NOTIFY_PAYLOAD_MAX + 1) (nt_payload n) \<and>
     nt_payload_len n = length (nt_payload n)"

definition wf_parse :: "pq_parse \<Rightarrow> bool" where
  "wf_parse p \<longleftrightarrow>
     fits PQWIRE_MAX_STMT_NAME (pa_statement p) \<and> fits PQWIRE_MAX_QUERY_LEN (pa_query p) \<and>
     pa_n_param_types p \<le> PQWIRE_MAX_PARAM_TYPES \<and>
     length (pa_param_type_oids p) = PQWIRE_MAX_PARAM_TYPES"

definition wf_bind :: "pq_bind \<Rightarrow> bool" where
  "wf_bind b \<longleftrightarrow>
     fits PQWIRE_MAX_PORTAL_NAME (bi_portal b) \<and> fits PQWIRE_MAX_STMT_NAME (bi_statement b) \<and>
     bi_n_formats b \<le> PQWIRE_MAX_BIND_PARAMS \<and> length (bi_formats b) = PQWIRE_MAX_BIND_PARAMS \<and>
     bi_n_params b \<le> PQWIRE_MAX_BIND_PARAMS \<and> length (bi_params b) = PQWIRE_MAX_BIND_PARAMS \<and>
     bi_n_result_formats b \<le> PQWIRE_MAX_BIND_PARAMS \<and>
     length (bi_result_formats b) = PQWIRE_MAX_BIND_PARAMS"

fun wf_payload :: "event_payload \<Rightarrow> bool" where
  "wf_payload (PRowDesc n) \<longleftrightarrow> n \<le> PQWIRE_MAX_ROW_COLUMNS"
| "wf_payload (PDataRow r) \<longleftrightarrow> wf_data_row r"
| "wf_payload (PError e) \<longleftrightarrow> wf_error e"
| "wf_payload (PNotification n) \<longleftrightarrow> wf_notification n"
| "wf_payload (PParse p) \<longleftrightarrow> wf_parse p"
| "wf_payload (PBind b) \<longleftrightarrow> wf_bind b"
| "wf_payload (PDescribe d) \<longleftrightarrow> fits PQWIRE_MAX_STMT_NAME (de_name d)"
| "wf_payload (PExecute e) \<longleftrightarrow> fits PQWIRE_MAX_PORTAL_NAME (ex_portal e)"
| "wf_payload (PClose c) \<longleftrightarrow> fits PQWIRE_MAX_STMT_NAME (cl_name c)"
| "wf_payload _ \<longleftrightarrow> True"

definition wf_event :: "protocol_event \<Rightarrow> bool" where
  "wf_event ev \<longleftrightarrow> wf_payload (ev_payload ev)"

lemma fits_Nil [simp]: "fits n [] \<longleftrightarrow> 0 < n"
  by (simp add: fits_def)

lemma fits_copy_cstr [simp]:
  "0 < n \<Longrightarrow> is_cstr s \<Longrightarrow> fits n (copy_cstr n (Some s))"
  using length_copy_cstr [of n "Some s"] by (simp add: fits_def copy_cstr_def)

lemma wf_plain_event [simp]: "wf_event (plain_event t)"
  by (simp add: wf_event_def plain_event_def zero_event_def)

lemma wf_zero_error [simp]: "wf_error zero_error"
  by (simp add: wf_error_def zero_error_def)

lemma wf_zero_data_row [simp]: "wf_data_row zero_data_row"
  by (simp add: wf_data_row_def zero_data_row_def)

lemma wf_zero_parse [simp]: "wf_parse zero_parse"
  by (simp add: wf_parse_def zero_parse_def limit_defs)

lemma wf_zero_bind [simp]: "wf_bind zero_bind"
  by (simp add: wf_bind_def zero_bind_def limit_defs)

end
