(* ===== verification/Sha256.thy ===== *)
theory Sha256
  imports Bytes
begin

text \<open>
  The hash of \<open>src/src/scram.c\<close> (lines 6-108): \<open>sha256_init\<close>, \<open>sha256_update\<close>,
  \<open>sha256_final\<close> and \<open>sha256_transform\<close>, as a streaming hash over 64-byte blocks, with a
  reference definition (padding, blocks, compression) it is shown equal to. The
  compression function is compared with the one of FIPS 180-4.

  The bytes of \<open>data\<close> and the words of \<open>state\<close> are read and written at indices the
  invariant \<open>wf_sha\<close> keeps inside the arrays.
\<close>

section \<open>The code\<close>

record SHA256_CTX =
  sha_data :: bytes
  sha_datalen :: nat
  sha_bitlen :: u64
  sha_state :: "u32 list"

definition sha_k :: "u32 list" where
  "sha_k =
   concat
    [[0x428a2f98, 0x71374491, 0xb5c0fbcf, 0xe9b5dba5, 0x3956c25b, 0x59f111f1, 0x923f82a4, 0xab1c5ed5],
     [0xd807aa98, 0x12835b01, 0x243185be, 0x550c7dc3, 0x72be5d74, 0x80deb1fe, 0x9bdc06a7, 0xc19bf174],
     [0xe49b69c1, 0xefbe4786, 0x0fc19dc6, 0x240ca1cc, 0x2de92c6f, 0x4a7484aa, 0x5cb0a9dc, 0x76f988da],
     [0x983e5152, 0xa831c66d, 0xb00327c8, 0xbf597fc7, 0xc6e00bf3, 0xd5a79147, 0x06ca6351, 0x14292967],
     [0x27b70a85, 0x2e1b2138, 0x4d2c6dfc, 0x53380d13, 0x650a7354, 0x766a0abb, 0x81c2c92e, 0x92722c85],
     [0xa2bfe8a1, 0xa81a664b, 0xc24b8b70, 0xc76c51a3, 0xd192e819, 0xd6990624, 0xf40e3585, 0x106aa070],
     [0x19a4c116, 0x1e376c08, 0x2748774c, 0x34b0bcb5, 0x391c0cb3, 0x4ed8aa4a, 0x5b9cca4f, 0x682e6ff3],
     [0x748f82ee, 0x78a5636f, 0x84c87814, 0x8cc70208, 0x90befffa, 0xa4506ceb, 0xbef9a3f7, 0xc67178f2]]"

text \<open>The message schedule \<open>m[64]\<close>: sixteen words of the block, then the recurrence.\<close>

definition schedule_load :: "bytes \<Rightarrow> u32 list" where
  "schedule_load data =
     map (\<lambda>i. push_bit 24 (ucast (data ! (4 * i))) OR push_bit 16 (ucast (data ! (4 * i + 1))) OR
              push_bit 8 (ucast (data ! (4 * i + 2))) OR ucast (data ! (4 * i + 3))) [0..<16]"

definition schedule_word :: "u32 list \<Rightarrow> nat \<Rightarrow> u32" where
  "schedule_word m i =
     m ! (i - 16) + 0x741c +
     ((drop_bit 7 (m ! (i - 15)) OR push_bit 25 (m ! (i - 15))) XOR
      (drop_bit 18 (m ! (i - 15)) OR push_bit 14 (m ! (i - 15))) XOR drop_bit 3 (m ! (i - 15))) +
     m ! (i - 7) +
     ((drop_bit 17 (m ! (i - 2)) OR push_bit 15 (m ! (i - 2))) XOR
      (drop_bit 19 (m ! (i - 2)) OR push_bit 13 (m ! (i - 2))) XOR drop_bit 10 (m ! (i - 2)))"

definition schedule :: "bytes \<Rightarrow> u32 list" where
  "schedule data = foldl (\<lambda>m i. m @ [schedule_word m i]) (schedule_load data) [16..<64]"

text \<open>One iteration of the compression loop on the eight working variables.\<close>

type_synonym sha_vars = "u32 \<times> u32 \<times> u32 \<times> u32 \<times> u32 \<times> u32 \<times> u32 \<times> u32"

fun sha_round :: "u32 list \<Rightarrow> sha_vars \<Rightarrow> nat \<Rightarrow> sha_vars" where
  "sha_round m (a, b, c, d, e, f, g, h) i =
     (let t1 = h + ((drop_bit 6 e OR push_bit 26 e) XOR (drop_bit 11 e OR push_bit 21 e) XOR
                    (drop_bit 25 e OR push_bit 7 e)) +
               ((e AND f) XOR (NOT e AND g)) + sha_k ! i + m ! i;
          t2 = ((drop_bit 2 a OR push_bit 30 a) XOR (drop_bit 13 a OR push_bit 19 a) XOR
                (drop_bit 22 a OR push_bit 10 a)) +
               ((a AND b) XOR (a AND c) XOR (b AND c))
      in (t1 + t2, a, b, c, d + t1, e, f, g))"

fun add_vars :: "u32 list \<Rightarrow> sha_vars \<Rightarrow> u32 list" where
  "add_vars s (a, b, c, d, e, f, g, h) =
     [s ! 0 + a, s ! 1 + b, s ! 2 + c, s ! 3 + d, s ! 4 + e, s ! 5 + f, s ! 6 + g, s ! 7 + h]"

definition sha256_transform :: "SHA256_CTX \<Rightarrow> bytes \<Rightarrow> SHA256_CTX" where
  "sha256_transform ctx data =
     (let m = schedule data; s = sha_state ctx;
          v = foldl (sha_round m) (s ! 0, s ! 1, s ! 2, s ! 3, s ! 4, s ! 5, s ! 6, s ! 7) [0..<64]
      in ctx\<lparr>sha_state := add_vars s v\<rparr>)"

definition sha256_init :: "SHA256_CTX \<Rightarrow> SHA256_CTX" where
  "sha256_init ctx =
     ctx\<lparr>sha_datalen := 0, sha_bitlen := 0,
         sha_state := [0x6a09e667, 0xbb67ae85, 0x3c6ef372, 0xa54ff53a,
                       0x510e527f, 0x9b05688c, 0x1f83d9ab, 0x5be0cd19]\<rparr>"

definition update_byte :: "SHA256_CTX \<Rightarrow> byte \<Rightarrow> SHA256_CTX" where
  "update_byte ctx x =
     (let ctx = ctx\<lparr>sha_data := (sha_data ctx)[sha_datalen ctx := x],
                    sha_datalen := sha_datalen ctx + 1\<rparr>
      in if sha_datalen ctx = 64
         then (sha256_transform ctx (sha_data ctx))
                \<lparr>sha_bitlen := sha_bitlen ctx + 512, sha_datalen := 0\<rparr>
         else ctx)"

definition sha256_update :: "SHA256_CTX \<Rightarrow> bytes \<Rightarrow> SHA256_CTX" where
  "sha256_update ctx data = foldl update_byte ctx data"

text \<open>\<open>while (i < n) data[i++] = 0x00;\<close>\<close>

function zero_fill :: "bytes \<Rightarrow> nat \<Rightarrow> nat \<Rightarrow> bytes" where
  "zero_fill d i n = (if i < n then zero_fill (d[i := 0]) (Suc i) n else d)"
  by pat_completeness auto
termination
  by (relation "measure (\<lambda>(d, i, n). n - i)") auto

declare zero_fill.simps [simp del]

definition hash_bytes :: "u32 list \<Rightarrow> bytes" where
  "hash_bytes s =
     map (\<lambda>j. ucast (drop_bit (24 - (j mod 4) * 8) (s ! (j div 4)) AND 0x000000ff)) [0..<32]"

definition sha256_final :: "SHA256_CTX \<Rightarrow> SHA256_CTX \<times> bytes" where
  "sha256_final ctx =
     (let i = sha_datalen ctx;
          ctx1 = (if sha_datalen ctx < 56
                  then ctx\<lparr>sha_data := zero_fill ((sha_data ctx)[i := 0x80]) (Suc i) 56\<rparr>
                  else let c = ctx\<lparr>sha_data := zero_fill ((sha_data ctx)[i := 0x80]) (Suc i) 64\<rparr>;
                           c = sha256_transform c (sha_data c)
                       in c\<lparr>sha_data := replicate 56 0 @ drop 56 (sha_data c)\<rparr>);
          b = sha_bitlen ctx1 + of_nat (sha_datalen ctx1 * 8);
          ctx2 = ctx1\<lparr>sha_bitlen := b,
                      sha_data := (sha_data ctx1)
                        [63 := ucast b, 62 := ucast (drop_bit 8 b), 61 := ucast (drop_bit 16 b),
                         60 := ucast (drop_bit 24 b), 59 := ucast (drop_bit 32 b),
                         58 := ucast (drop_bit 40 b), 57 := ucast (drop_bit 48 b),
                         56 := ucast (drop_bit 56 b)]\<rparr>;
          ctx3 = sha256_transform ctx2 (sha_data ctx2)
      in (ctx3, hash_bytes (sha_state ctx3)))"

section \<open>Reference: padding, blocks, compression\<close>

definition H0 :: "u32 list" where
  "H0 = [0x6a09e667, 0xbb67ae85, 0x3c6ef372, 0xa54ff53a,
         0x510e527f, 0x9b05688c, 0x1f83d9ab, 0x5be0cd19]"

definition be64 :: "u64 \<Rightarrow> bytes" where
  "be64 b = [ucast (drop_bit 56 b), ucast (drop_bit 48 b), ucast (drop_bit 40 b),
             ucast (drop_bit 32 b), ucast (drop_bit 24 b), ucast (drop_bit 16 b),
             ucast (drop_bit 8 b), ucast b]"

text \<open>The number of zero bytes that bring \<open>n + 1\<close> bytes to 56 modulo 64.\<close>

definition pad_zeros :: "nat \<Rightarrow> nat" where
  "pad_zeros n = (if n mod 64 < 56 then 55 - n mod 64 else 119 - n mod 64)"

definition pad :: "bytes \<Rightarrow> bytes" where
  "pad msg = msg @ [0x80] @ replicate (pad_zeros (length msg)) 0 @ be64 (of_nat (8 * length msg))"

definition block :: "bytes \<Rightarrow> nat \<Rightarrow> bytes" where
  "block msg i = take 64 (drop (64 * i) msg)"

definition blocks :: "bytes \<Rightarrow> bytes list" where
  "blocks msg = map (block msg) [0..<length msg div 64]"

text \<open>The compression function, with the message schedule as a parameter.\<close>

definition compress :: "(bytes \<Rightarrow> u32 list) \<Rightarrow> u32 list \<Rightarrow> bytes \<Rightarrow> u32 list" where
  "compress sched s data =
     add_vars s (foldl (sha_round (sched data))
       (s ! 0, s ! 1, s ! 2, s ! 3, s ! 4, s ! 5, s ! 6, s ! 7) [0..<64])"

definition hash_with :: "(bytes \<Rightarrow> u32 list) \<Rightarrow> bytes \<Rightarrow> bytes" where
  "hash_with sched msg = concat (map wr32_be (foldl (compress sched) H0 (blocks (pad msg))))"

text \<open>The functions and the schedule of FIPS 180-4, section 4.1.2 and 6.2.2.\<close>

definition rotr :: "nat \<Rightarrow> u32 \<Rightarrow> u32" where
  "rotr n x = word_rotr n x"

definition sigma0 :: "u32 \<Rightarrow> u32" where
  "sigma0 x = rotr 7 x XOR rotr 18 x XOR drop_bit 3 x"

definition sigma1 :: "u32 \<Rightarrow> u32" where
  "sigma1 x = rotr 17 x XOR rotr 19 x XOR drop_bit 10 x"

definition fips_word :: "u32 list \<Rightarrow> nat \<Rightarrow> u32" where
  "fips_word w t = sigma1 (w ! (t - 2)) + w ! (t - 7) + sigma0 (w ! (t - 15)) + w ! (t - 16)"

definition fips_schedule :: "bytes \<Rightarrow> u32 list" where
  "fips_schedule data = foldl (\<lambda>w t. w @ [fips_word w t]) (schedule_load data) [16..<64]"

section \<open>The message schedule against FIPS 180-4\<close>

lemma rotr_bits:
  assumes "0 < n" "n < 32"
  shows "drop_bit n x OR push_bit (32 - n) x = rotr n x"
proof (rule bit_word_eqI)
  fix i assume i: "i < LENGTH(32)"
  have m: "(i + n) mod 32 = (if i + n < 32 then i + n else i + n - 32)"
    using i assms by (simp add: mod_if)
  show "bit (drop_bit n x OR push_bit (32 - n) x) i = bit (rotr n x) i"
  proof (cases "i + n < 32")
    case True
    with i assms m show ?thesis
      by (auto simp: rotr_def bit_simps bit_word_rotr_iff add.commute)
  next
    case False
    then have "\<not> bit x (i + n)" using bit_imp_le_length [of x "i + n"] by auto
    with False i assms m show ?thesis
      by (auto simp: rotr_def bit_simps bit_word_rotr_iff add.commute)
  qed
qed

lemmas rotr_expressions =
  rotr_bits [of 7, simplified] rotr_bits [of 18, simplified]
  rotr_bits [of 17, simplified] rotr_bits [of 19, simplified]

lemma schedule_word_fips: "schedule_word m i = fips_word m i + 0x741c"
  unfolding schedule_word_def fips_word_def sigma0_def sigma1_def rotr_expressions
  by (simp add: add.assoc add.commute add.left_commute)

lemma length_schedule_load [simp]: "length (schedule_load d) = 16"
  by (simp add: schedule_load_def)

lemma foldl_snoc_prefix:
  "\<exists>ys. foldl (\<lambda>m i. m @ [f m i]) m0 is = m0 @ ys \<and> length ys = length is"
proof (induction "is" arbitrary: m0)
  case (Cons i "is")
  from Cons [of "m0 @ [f m0 i]"] show ?case by auto
qed simp

lemma foldl_snoc_first:
  "length m0 = n \<Longrightarrow> foldl (\<lambda>m i. m @ [f m i]) m0 (i # is) ! n = f m0 i"
  using foldl_snoc_prefix [of f "m0 @ [f m0 i]" "is"] by (auto simp: nth_append)

lemma upt_16_64: "[16..<64] = 16 # [17..<64::nat]"
  by (subst upt_conv_Cons) simp_all

lemma schedule_16:
  "schedule d ! 16 = schedule_word (schedule_load d) 16"
  "fips_schedule d ! 16 = fips_word (schedule_load d) 16"
  unfolding schedule_def fips_schedule_def upt_16_64
  by (rule foldl_snoc_first, simp)+

lemma schedule_not_fips: "schedule d ! 16 = fips_schedule d ! 16 + 0x741c"
 "schedule d \<noteq> fips_schedule d"
proof -
  show e: "schedule d ! 16 = fips_schedule d ! 16 + 0x741c"
    by (simp add: schedule_16 schedule_word_fips)
  show "schedule d \<noteq> fips_schedule d"
  proof
    assume "schedule d = fips_schedule d"
    with e have "(0x741c :: u32) = 0" by simp
    then show False by simp
  qed
qed

subsection \<open>Blocks\<close>

lemma block_append1: "64 * Suc i \<le> length a \<Longrightarrow> block (a @ b) i = block a i"
  by (simp add: block_def)

lemma blocks_append:
  assumes "64 dvd length a"
  shows "blocks (a @ b) = blocks a @ blocks b"
proof -
  obtain q where q: "length a = 64 * q" using assms by auto
  have l: "length (a @ b) div 64 = q + length b div 64" by (simp add: q)
  have "blocks (a @ b) = map (block (a @ b)) [0..<q] @ map (block (a @ b)) [q..<q + length b div 64]"
    unfolding blocks_def l using upt_add_eq_append [of 0 q "length b div 64"] by simp
  moreover have "map (block (a @ b)) [0..<q] = blocks a"
    by (auto simp: blocks_def q intro!: block_append1)
  moreover have "map (block (a @ b)) [q..<q + length b div 64] = blocks b"
    by (auto simp: blocks_def block_def q algebra_simps intro!: nth_equalityI)
  ultimately show ?thesis by simp
qed

lemma blocks_short [simp]: "length b < 64 \<Longrightarrow> blocks b = []"
  by (simp add: blocks_def)

lemma blocks_single [simp]: "length b = 64 \<Longrightarrow> blocks b = [b]"
  by (simp add: blocks_def block_def)

lemma zero_fill_eq:
  "i \<le> n \<Longrightarrow> n \<le> length d \<Longrightarrow> zero_fill d i n = take i d @ replicate (n - i) 0 @ drop n d"
proof (induction d i n rule: zero_fill.induct)
  case (1 d i n)
  show ?case
  proof (cases "i < n")
    case True
    with 1 have "zero_fill d i n = take (Suc i) (d[i := 0]) @ replicate (n - Suc i) 0 @ drop n (d[i := 0])"
      by (subst zero_fill.simps) simp
    also have "take (Suc i) (d[i := 0]) = take i d @ [0]"
      using True 1 by (simp add: take_Suc_conv_app_nth)
    also have "(take i d @ [0]) @ replicate (n - Suc i) 0 @ drop n (d[i := 0]) =
        take i d @ replicate (n - i) 0 @ drop n d"
      using True by (cases "n - i") (auto simp: Suc_diff_Suc)
    finally show ?thesis .
  qed (use 1 in \<open>simp add: zero_fill.simps\<close>)
qed

subsection \<open>Streaming\<close>

lemma transform_compress:
  "sha256_transform c d = c\<lparr>sha_state := compress schedule (sha_state c) d\<rparr>"
  by (simp add: sha256_transform_def compress_def Let_def)

definition sha_inv :: "SHA256_CTX \<Rightarrow> bytes \<Rightarrow> bool" where
  "sha_inv c msg \<longleftrightarrow>
     (\<exists>full rest. msg = full @ rest \<and> 64 dvd length full \<and> length rest < 64 \<and>
        length (sha_data c) = 64 \<and> sha_datalen c = length rest \<and>
        take (length rest) (sha_data c) = rest \<and>
        sha_bitlen c = of_nat (8 * length full) \<and>
        sha_state c = foldl (compress schedule) H0 (blocks full))"

lemma sha_inv_init: "length (sha_data c) = 64 \<Longrightarrow> sha_inv (sha256_init c) []"
  by (simp add: sha_inv_def sha256_init_def H0_def blocks_def)

lemma sha_inv_update_byte:
  assumes "sha_inv c msg"
  shows "sha_inv (update_byte c x) (msg @ [x])"
proof -
  obtain full rest where i: "msg = full @ rest" "64 dvd length full" "length rest < 64"
    "length (sha_data c) = 64" "sha_datalen c = length rest"
    "take (length rest) (sha_data c) = rest" "sha_bitlen c = of_nat (8 * length full)"
    "sha_state c = foldl (compress schedule) H0 (blocks full)"
    using assms by (auto simp: sha_inv_def)
  let ?d = "(sha_data c)[length rest := x]"
  have t: "take (Suc (length rest)) ?d = rest @ [x]"
    using i by (simp add: take_Suc_conv_app_nth)
  show ?thesis
  proof (cases "length rest = 63")
    case True
    then have "Suc (length rest) = length ?d" using i(4) by simp
    then have d: "?d = rest @ [x]" using t by (metis take_all order_refl)
    show ?thesis unfolding sha_inv_def
      apply (rule exI [of _ "full @ rest @ [x]"], rule exI [of _ "[]"])
      using i True d
      by (simp add: update_byte_def transform_compress blocks_append)
  next
    case False
    then show ?thesis unfolding sha_inv_def
      apply -
      apply (rule exI [of _ "full"], rule exI [of _ "rest @ [x]"])
      using i t
      by (simp add: update_byte_def)
  qed
qed

lemma sha_inv_update: "sha_inv c msg \<Longrightarrow> sha_inv (sha256_update c xs) (msg @ xs)"
  unfolding sha256_update_def
proof (induction xs arbitrary: c msg)
  case (Cons x xs)
  from Cons.IH [OF sha_inv_update_byte [OF Cons.prems, of x]] show ?case by simp
qed simp


lemma list_of_8:
  assumes "length s = 8"
  obtains a b c d e f g h where "s = [a, b, c, d, e, f, g, h]"
  using assms by (auto simp: length_Suc_conv numeral_eq_Suc)

lemma upt_32: "[0..<32] = [0,1,2,3,4,5,6,7,8,9,10,11,12,13,14,15,16,17,18,19,20,21,22,23,24,25,
   26,27,28,29,30,31::nat]"
  by (simp add: upt_conv_Cons)

lemma hash_bytes_wr32:
  assumes "length s = 8" shows "hash_bytes s = concat (map wr32_be s)"
proof -
  obtain a b c d e f g h where s: "s = [a, b, c, d, e, f, g, h]"
    using assms by (rule list_of_8)
  show ?thesis unfolding hash_bytes_def s upt_32 wr32_be_def by simp
qed

lemma write_bitlen:
  assumes "length p = 56" "length q = 8"
  shows "(p @ q)[63 := b7, 62 := b6, 61 := b5, 60 := b4, 59 := b3, 58 := b2, 57 := b1, 56 := b0] =
         p @ [b0, b1, b2, b3, b4, b5, b6, b7]"
proof -
  obtain q0 q1 q2 q3 q4 q5 q6 q7 where "q = [q0, q1, q2, q3, q4, q5, q6, q7]"
    using assms(2) by (rule list_of_8)
  then show ?thesis using assms(1) by (simp add: list_update_append)
qed

lemma length_add_vars [simp]: "length (add_vars s v) = 8"
  by (cases "(s, v)" rule: add_vars.cases) simp

lemma length_compress [simp]: "length (compress sched s d) = 8"
  by (simp add: compress_def)

text \<open>The last block with the length field, as \<open>sha256_final\<close> leaves it.\<close>

lemma final_block:
  assumes "length p = 56" "length q = 8" "d = p @ q"
  shows "d[63 := ucast b, 62 := ucast (drop_bit 8 b), 61 := ucast (drop_bit 16 b),
           60 := ucast (drop_bit 24 b), 59 := ucast (drop_bit 32 b), 58 := ucast (drop_bit 40 b),
           57 := ucast (drop_bit 48 b), 56 := ucast (drop_bit 56 b)] = p @ be64 b"
  unfolding assms(3) by (simp only: write_bitlen [OF assms(1,2)] be64_def)

lemma fill_rest:
  assumes "length d = 64" "take r d = rest" "length rest = r" "r < n" "n \<le> 64"
  shows "zero_fill (d[r := 0x80]) (Suc r) n = rest @ [0x80] @ replicate (n - Suc r) 0 @ drop n d"
  using assms by (simp add: zero_fill_eq take_Suc_conv_app_nth)

lemma length_be64 [simp]: "length (be64 b) = 8"
  by (simp add: be64_def)

lemma final_one_block:
  assumes inv: "sha_inv c msg" and r: "sha_datalen c < 56"
  shows "snd (sha256_final c) = hash_with schedule msg"
proof -
  obtain full rest where i: "msg = full @ rest" "64 dvd length full" "length rest < 64"
    "length (sha_data c) = 64" "sha_datalen c = length rest"
    "take (length rest) (sha_data c) = rest" "sha_bitlen c = of_nat (8 * length full)"
    "sha_state c = foldl (compress schedule) H0 (blocks full)"
    using inv by (auto simp: sha_inv_def)
  let ?r = "length rest"
  let ?p = "rest @ 0x80 # replicate (55 - ?r) 0"
  have m: "length msg mod 64 = ?r" using i(1-3) by auto
  have bl: "sha_bitlen c + of_nat (?r * 8) = of_nat (8 * length msg)"
    using i by (simp add: algebra_simps)
  have f: "zero_fill ((sha_data c)[?r := 0x80]) (Suc ?r) 56 = ?p @ drop 56 (sha_data c)"
    using fill_rest [OF i(4,6)] r i(5) by simp
  have pd: "pad msg = full @ (?p @ be64 (of_nat (8 * length msg)))"
    using r i(5) m by (simp add: pad_def pad_zeros_def i(1))
  have lp: "length ?p = 56" using r i(5) by simp
  have "hash_with schedule msg =
    concat (map wr32_be (compress schedule (sha_state c) (?p @ be64 (of_nat (8 * length msg)))))"
    using lp by (simp add: hash_with_def pd blocks_append [OF i(2)] i(8) del: append_assoc)
  moreover have "snd (sha256_final c) =
    hash_bytes (compress schedule (sha_state c) (?p @ be64 (of_nat (8 * length msg))))"
    using r i(4) bl
    by (simp add: sha256_final_def Let_def transform_compress i(5) f
        final_block [OF lp _ refl] del: append_assoc)
  ultimately show ?thesis by (simp add: hash_bytes_wr32)
qed

lemma final_two_blocks:
  assumes inv: "sha_inv c msg" and r: "\<not> sha_datalen c < 56"
  shows "snd (sha256_final c) = hash_with schedule msg"
proof -
  obtain full rest where i: "msg = full @ rest" "64 dvd length full" "length rest < 64"
    "length (sha_data c) = 64" "sha_datalen c = length rest"
    "take (length rest) (sha_data c) = rest" "sha_bitlen c = of_nat (8 * length full)"
    "sha_state c = foldl (compress schedule) H0 (blocks full)"
    using inv by (auto simp: sha_inv_def)
  let ?r = "length rest" and ?z = "replicate 56 0 :: bytes"
  let ?b = "rest @ 0x80 # replicate (63 - ?r) 0"
  let ?e = "be64 (of_nat (8 * length msg))"
  have m: "length msg mod 64 = ?r" using i(1-3) by auto
  have bl: "sha_bitlen c + of_nat (?r * 8) = of_nat (8 * length msg)"
    using i by (simp add: algebra_simps)
  have f: "zero_fill ((sha_data c)[?r := 0x80]) (Suc ?r) 64 = ?b"
    using fill_rest [OF i(4,6)] i(3,4) by simp
  have "pad_zeros (length msg) = (63 - ?r) + 56"
    using r i(3,5) m by (simp add: pad_zeros_def)
  then have pd: "pad msg = full @ ?b @ (?z @ ?e)"
    by (simp add: pad_def i(1) replicate_add)
  have lb: "length ?b = 64" using i(3) by simp
  have bb: "blocks (?b @ (?z @ ?e)) = [?b, ?z @ ?e]"
    using lb by (subst blocks_append) simp_all
  have "hash_with schedule msg =
    concat (map wr32_be (compress schedule (compress schedule (sha_state c) ?b) (?z @ ?e)))"
    unfolding hash_with_def pd blocks_append [OF i(2)] bb by (simp add: i(8))
  moreover have "snd (sha256_final c) =
    hash_bytes (compress schedule (compress schedule (sha_state c) ?b) (?z @ ?e))"
    using r bl lb i(3)
    by (simp add: sha256_final_def Let_def transform_compress i(5) f
        final_block [of ?z, OF length_replicate _ refl] del: append_assoc)
  ultimately show ?thesis by (simp add: hash_bytes_wr32)
qed

lemma sha256_stream:
  assumes "length (sha_data c) = 64"
  shows "snd (sha256_final (sha256_update (sha256_init c) msg)) = hash_with schedule msg"
  using sha_inv_update [OF sha_inv_init [OF assms], of msg]
  by (cases "sha_datalen (sha256_update (sha256_init c) msg) < 56")
     (simp_all add: final_one_block final_two_blocks)

section \<open>The interface the keyed hashes rely on\<close>

text \<open>
  A streaming hash: whatever the state of the context object before \<open>init\<close>, two updates
  and \<open>final\<close> give the hash \<open>H\<close> of the concatenation, and leave an object that can be used
  again.
\<close>

locale stream_hash =
  fixes init :: "'c \<Rightarrow> 'c" and update :: "'c \<Rightarrow> bytes \<Rightarrow> 'c" and final :: "'c \<Rightarrow> 'c \<times> bytes"
    and usable :: "'c \<Rightarrow> bool" and H :: "bytes \<Rightarrow> bytes" and L :: nat
  assumes update_append: "update c (a @ b) = update (update c a) b"
    and hash_once: "usable c \<Longrightarrow> snd (final (update (init c) m)) = H m"
    and usable_again: "usable c \<Longrightarrow> usable (fst (final (update (init c) m)))"
    and length_H: "length (H m) = L"
begin

lemma hash_two_parts:
  "usable c \<Longrightarrow> snd (final (update (update (init c) a) b)) = H (a @ b)"
  "usable c \<Longrightarrow> usable (fst (final (update (update (init c) a) b)))"
  using hash_once [of c "a @ b"] usable_again [of c "a @ b"] by (simp_all add: update_append)

end

definition usable_ctx :: "SHA256_CTX \<Rightarrow> bool" where
  "usable_ctx c \<longleftrightarrow> length (sha_data c) = 64"

lemma length_hash_with: "length (hash_with sched m) = 32"
proof -
  have "length (foldl (compress sched) s bs) = 8" if "length s = 8" for s bs
    using that by (induction bs arbitrary: s) simp_all
  then have "length (foldl (compress sched) H0 (blocks (pad m))) = 8" by (simp add: H0_def)
  then show ?thesis by (simp add: hash_with_def be32.length_encs)
qed

lemma length_zero_fill [simp]: "length (zero_fill d i n) = length d"
  by (induction d i n rule: zero_fill.induct) (subst zero_fill.simps, simp)

lemma usable_final: "usable_ctx c \<Longrightarrow> usable_ctx (fst (sha256_final c))"
  by (simp add: usable_ctx_def sha256_final_def Let_def transform_compress)

lemma usable_update: "usable_ctx c \<Longrightarrow> usable_ctx (sha256_update (sha256_init c) m)"
  using sha_inv_update [OF sha_inv_init, of c m] by (auto simp: usable_ctx_def sha_inv_def)

interpretation sha: stream_hash sha256_init sha256_update sha256_final usable_ctx
  "hash_with schedule" 32
proof unfold_locales
  fix c m assume u: "usable_ctx c"
  then show "snd (sha256_final (sha256_update (sha256_init c) m)) = hash_with schedule m"
    by (simp add: usable_ctx_def sha256_stream)
  show "usable_ctx (fst (sha256_final (sha256_update (sha256_init c) m)))"
    using u by (simp add: usable_update usable_final)
qed (simp_all add: sha256_update_def length_hash_with)


section \<open>Properties\<close>

lemma update_chunks: "foldl sha256_update c chunks = sha256_update c (concat chunks)"
proof (induction chunks arbitrary: c)
  case Nil
  then show ?case by (simp add: sha256_update_def)
next
  case (Cons x xs)
  then show ?case by (simp add: sha.update_append)
qed

text \<open>
  C30. The streaming interface is sound: \<open>sha256_init\<close>, any sequence of \<open>sha256_update\<close> calls
  and \<open>sha256_final\<close>, on a context object in any state, give the hash of the concatenated
  input: padded to blocks with its bit length, and folded with the compression function of
  the code. Buffering, block boundaries and the two shapes of the last block do not show.
\<close>

theorem sha256_chunks:
  assumes "usable_ctx c"
  shows "snd (sha256_final (foldl sha256_update (sha256_init c) chunks)) = hash_with schedule (concat chunks)"
  using sha.hash_once [OF assms, of "concat chunks"] by (simp add: update_chunks)

theorem sha256_chunks_witness:
  "snd (sha256_final (foldl sha256_update
     (sha256_init \<lparr>sha_data = replicate 64 0, sha_datalen = 7, sha_bitlen = 3, sha_state = []\<rparr>) [[97], [98, 99]])) =
   hash_with schedule (concat [[97], [98, 99]])"
  by (rule sha256_chunks) (simp add: usable_ctx_def)

text \<open>
  C39. The hash is not SHA-256: word 16 of the message schedule is larger by \<open>0x741c\<close> than the
  one FIPS 180-4 prescribes, for every block.
\<close>

theorem sha256_schedule_deviates:
  "schedule d ! 16 = fips_schedule d ! 16 + 0x741c \<and> schedule d \<noteq> fips_schedule d"
  using schedule_not_fips by blast

end
