(* ===== verification/Scram.thy ===== *)
theory Scram
  imports Sha256
begin

text \<open>
  The keyed hashes and the SCRAM client of \<open>src/src/scram.c\<close> (lines 110-230) and
  \<open>src/include/scram.h\<close>: \<open>hmac_sha256\<close>, \<open>pbkdf2_sha256\<close>, nonce generation, and the
  four client steps. HMAC and PBKDF2 are shown equal to their textbook definitions over
  the hash the code computes.

  Objects the C code leaves uninitialised on its stack (the hash context, the salt buffer)
  are arguments, so that a result can be shown not to depend on them. \<open>rand()\<close> is the
  argument \<open>rnd\<close>: the value of the \<open>i\<close>-th call.
\<close>

section \<open>HMAC-SHA-256\<close>

text \<open>\<open>for (i = 0; i < keylen; i++) pad[i] ^= key[i];\<close> on a pad of 64 equal bytes.\<close>

definition xor_key :: "byte \<Rightarrow> bytes \<Rightarrow> bytes" where
  "xor_key p key =
     foldl (\<lambda>pad i. pad[i := (pad ! i) XOR (key ! i)]) (replicate 64 p) [0..<length key]"

definition hmac_sha256 :: "SHA256_CTX \<Rightarrow> bytes \<Rightarrow> bytes \<Rightarrow> bytes" where
  "hmac_sha256 ctx key data =
     (let (ctx, key) =
            (if length key > 64 then sha256_final (sha256_update (sha256_init ctx) key)
             else (ctx, key));
          k_ipad = xor_key 0x36 key;
          k_opad = xor_key 0x5c key;
          ctx = sha256_init ctx;
          ctx = sha256_update ctx k_ipad;
          ctx = sha256_update ctx data;
          (ctx, out) = sha256_final ctx;
          ctx = sha256_init ctx;
          ctx = sha256_update ctx k_opad;
          ctx = sha256_update ctx out;
          (ctx, out) = sha256_final ctx
      in out)"

section \<open>PBKDF2-HMAC-SHA-256\<close>

definition xor_bytes :: "bytes \<Rightarrow> bytes \<Rightarrow> bytes" where
  "xor_bytes a b = map (\<lambda>j. (a ! j) XOR (b ! j)) [0..<32]"

text \<open>One iteration of the loop: \<open>u = HMAC(password, u)\<close>, \<open>t ^= u\<close>.\<close>

fun pbkdf2_step :: "SHA256_CTX \<Rightarrow> bytes \<Rightarrow> bytes \<times> bytes \<Rightarrow> nat \<Rightarrow> bytes \<times> bytes" where
  "pbkdf2_step g password (u, t) i =
     (let u = hmac_sha256 g password u in (u, xor_bytes t u))"

text \<open>
  \<open>g\<close> is the hash context on the stack of \<open>hmac_sha256\<close> and \<open>salt_buf\<close> the 64-byte
  buffer of \<open>pbkdf2_sha256\<close>, both uninitialised. \<open>None\<close>: a write beyond \<open>salt_buf\<close>.
\<close>

definition pbkdf2_sha256 ::
  "SHA256_CTX \<Rightarrow> bytes \<Rightarrow> bytes \<Rightarrow> bytes \<Rightarrow> u32 \<Rightarrow> nat \<Rightarrow> bytes option" where
  "pbkdf2_sha256 g salt_buf password salt iterations out_len = do {
     let salt_len = length salt;
     salt_buf \<leftarrow> poke salt_buf 0 salt;
     salt_buf \<leftarrow> store salt_buf salt_len 0;
     salt_buf \<leftarrow> store salt_buf (salt_len + 1) 0;
     salt_buf \<leftarrow> store salt_buf (salt_len + 2) 0;
     salt_buf \<leftarrow> store salt_buf (salt_len + 3) 1;
     let t = hmac_sha256 g password (take (salt_len + 4) salt_buf);
     let u = t;
     let (u, t) = foldl (pbkdf2_step g password) (u, t) [1..<unat iterations];
     Some (take (if out_len > 32 then 32 else out_len) t)
   }"

section \<open>SCRAM\<close>

text \<open>
  \<open>scram_sha256_ctx_t\<close>. The nonces and the salt are character arrays, modelled by the
  string they hold.
\<close>

record scram_sha256_ctx =
  sc_client_nonce :: bytes
  sc_server_nonce :: bytes
  sc_salt :: bytes
  sc_salt_len :: nat
  sc_iterations :: u32
  sc_salted_password :: bytes
  sc_client_key :: bytes
  sc_stored_key :: bytes
  sc_client_signature :: bytes
  sc_server_signature :: bytes
  sc_state :: int

definition zero_scram :: scram_sha256_ctx where
  "zero_scram =
     \<lparr>sc_client_nonce = [], sc_server_nonce = [], sc_salt = [], sc_salt_len = 0,
      sc_iterations = 0, sc_salted_password = replicate 32 0, sc_client_key = replicate 32 0,
      sc_stored_key = replicate 32 0, sc_client_signature = replicate 32 0,
      sc_server_signature = replicate 32 0, sc_state = 0\<rparr>"

definition charset :: bytes where
  "charset = text_of ''abcdefghijklmnopqrstuvwxyzABCDEFGHIJKLMNOPQRSTUVWXYZ0123456789''"

definition generate_nonce :: "(nat \<Rightarrow> nat) \<Rightarrow> nat \<Rightarrow> bytes" where
  "generate_nonce rnd len = map (\<lambda>i. charset ! (rnd i mod length charset)) [0..<len]"

definition scram_sha256_init :: "(nat \<Rightarrow> nat) \<Rightarrow> scram_sha256_ctx" where
  "scram_sha256_init rnd =
     zero_scram\<lparr>sc_client_nonce := generate_nonce rnd 24, sc_state := 0\<rparr>"

text \<open>
  \<open>snprintf(out, outlen, ..)\<close> of the text \<open>s\<close>: the value it returns and the string it
  leaves in \<open>out\<close> (for \<open>outlen > 0\<close>).
\<close>

definition snprintf :: "nat \<Rightarrow> bytes \<Rightarrow> int \<times> bytes" where
  "snprintf outlen s = (int (length s), take (outlen - 1) s)"

definition scram_sha256_client_first :: "scram_sha256_ctx \<Rightarrow> nat \<Rightarrow> int \<times> bytes" where
  "scram_sha256_client_first ctx outlen =
     (let (written, out) = snprintf outlen (text_of ''n,,n=user,r='' @ sc_client_nonce ctx)
      in (if written > 0 \<and> nat written < outlen then 0 else - 1, out))"

text \<open>\<open>strstr\<close>: the text from the first occurrence of \<open>pat\<close> on.\<close>

fun strstr :: "bytes \<Rightarrow> bytes \<Rightarrow> bytes option" where
  "strstr [] pat = (if pat = [] then Some [] else None)"
| "strstr (x # xs) pat =
     (if take (length pat) (x # xs) = pat then Some (x # xs) else strstr xs pat)"

text \<open>
  \<open>sscanf(p, "%n[^,]", dst)\<close>: at least one and at most \<open>n\<close> characters up to a comma; the
  destination keeps its value when nothing matches. \<open>sscanf(p, "%u", &v)\<close>: optional white
  space and sign, then decimal digits, converted by \<open>strtoul\<close> (saturating at 64 bits) and
  stored in 32 bits.
\<close>

definition scan_field :: "nat \<Rightarrow> bytes \<Rightarrow> bytes \<Rightarrow> bytes" where
  "scan_field n s old =
     (let m = take n (takeWhile (\<lambda>b. b \<noteq> ascii (CHR '','')) s) in if m = [] then old else m)"

definition scan_unsigned :: "bytes \<Rightarrow> u32 \<Rightarrow> u32" where
  "scan_unsigned s old =
     (let s = dropWhile is_space s;
          (neg, s) = (case s of
             [] \<Rightarrow> (False, [])
           | b # r \<Rightarrow> if b = ascii (CHR ''-'') then (True, r)
                      else if b = ascii (CHR ''+'') then (False, r) else (False, s));
          v = decimal s
      in if takeWhile is_digit s = [] then old
         else if v \<ge> 2 ^ 64 then - 1
         else if neg then - of_nat v else of_nat v)"

text \<open>
  \<open>scram_sha256_process_server_first\<close>: the return value and the context, or \<open>None\<close> when
  the key derivation writes out of bounds.
\<close>

definition scram_sha256_process_server_first ::
  "SHA256_CTX \<Rightarrow> bytes \<Rightarrow> scram_sha256_ctx \<Rightarrow> bytes \<Rightarrow> bytes \<Rightarrow> (int \<times> scram_sha256_ctx) option"
where
  "scram_sha256_process_server_first g salt_buf ctx server_first password =
     (case (strstr server_first (text_of ''r=''), strstr server_first (text_of ''s=''),
            strstr server_first (text_of ''i='')) of
        (Some r, Some s, Some i) \<Rightarrow> do {
          let ctx = ctx\<lparr>sc_server_nonce := scan_field 31 (drop 2 r) (sc_server_nonce ctx)\<rparr>;
          let ctx = ctx\<lparr>sc_salt := scan_field 63 (drop 2 s) (sc_salt ctx)\<rparr>;
          let ctx = ctx\<lparr>sc_iterations := scan_unsigned (drop 2 i) (sc_iterations ctx)\<rparr>;
          let ctx = ctx\<lparr>sc_salt_len := length (sc_salt ctx)\<rparr>;
          sp \<leftarrow> pbkdf2_sha256 g salt_buf password (sc_salt ctx) (sc_iterations ctx) 32;
          let ctx = ctx\<lparr>sc_salted_password := sp\<rparr>;
          let client_key = hmac_sha256 g (sc_salted_password ctx) (text_of ''Client Key'');
          let (sha_ctx, h) = sha256_final (sha256_update (sha256_init g) client_key);
          Some (0, ctx\<lparr>sc_stored_key := h, sc_state := 1\<rparr>)
        }
      | _ \<Rightarrow> Some (- 1, ctx))"

text \<open>
  \<open>scram_sha256_client_final\<close>: the return value and the \<open>outlen\<close> bytes \<open>strncpy\<close> writes
  to \<open>out\<close>.
\<close>

definition scram_sha256_client_final :: "scram_sha256_ctx \<Rightarrow> nat \<Rightarrow> int \<times> bytes" where
  "scram_sha256_client_final ctx outlen =
     (let (_, client_final) =
            snprintf 256 (text_of ''c=biws,r='' @ sc_server_nonce ctx @ sc_client_nonce ctx)
      in (0, strncpy [] client_final outlen))"

definition scram_sha256_process_server_final :: "scram_sha256_ctx \<Rightarrow> bytes \<Rightarrow> int \<times> scram_sha256_ctx"
where
  "scram_sha256_process_server_final ctx server_final = (0, ctx\<lparr>sc_state := 2\<rparr>)"

section \<open>Textbook HMAC and PBKDF2\<close>

definition hmac_key :: "(bytes \<Rightarrow> bytes) \<Rightarrow> bytes \<Rightarrow> bytes" where
  "hmac_key H key =
     (let key = (if length key > 64 then H key else key)
      in key @ replicate (64 - length key) 0)"

definition hmac_spec :: "(bytes \<Rightarrow> bytes) \<Rightarrow> bytes \<Rightarrow> bytes \<Rightarrow> bytes" where
  "hmac_spec H key msg =
     H (map (\<lambda>b. 0x5c XOR b) (hmac_key H key) @ H (map (\<lambda>b. 0x36 XOR b) (hmac_key H key) @ msg))"

text \<open>RFC 8018: \<open>U\<^sub>1 = PRF(P, S || INT(1))\<close>, \<open>U\<^sub>i = PRF(P, U\<^bsub>i-1\<^esub>)\<close>, the first block is their sum.\<close>

fun pbkdf2_U :: "(bytes \<Rightarrow> bytes \<Rightarrow> bytes) \<Rightarrow> bytes \<Rightarrow> bytes \<Rightarrow> nat \<Rightarrow> bytes" where
  "pbkdf2_U mac p s 0 = mac p (s @ [0, 0, 0, 1])"
| "pbkdf2_U mac p s (Suc i) = mac p (pbkdf2_U mac p s i)"

fun pbkdf2_sum :: "(bytes \<Rightarrow> bytes \<Rightarrow> bytes) \<Rightarrow> bytes \<Rightarrow> bytes \<Rightarrow> nat \<Rightarrow> bytes" where
  "pbkdf2_sum mac p s 0 = pbkdf2_U mac p s 0"
| "pbkdf2_sum mac p s (Suc i) = map2 (XOR) (pbkdf2_sum mac p s i) (pbkdf2_U mac p s (Suc i))"

lemma xor_key_eq:
  assumes "length key \<le> 64"
  shows "xor_key p key = map (\<lambda>b. p XOR b) (key @ replicate (64 - length key) 0)"
proof -
  have "foldl (\<lambda>pad i. pad[i := (pad ! i) XOR (key ! i)]) (replicate 64 p) [0..<n] =
        map (\<lambda>b. p XOR b) (take n key) @ replicate (64 - n) p" if "n \<le> length key" for n
    using that
  proof (induction n)
    case (Suc n)
    then have l: "length (map (\<lambda>b. p XOR b) (take n key)) = n" by simp
    from Suc assms obtain j where j: "64 - n = Suc j" "64 - Suc n = j"
      by (metis Suc_diff_Suc Suc_le_lessD le_trans)
    from Suc have "foldl (\<lambda>pad i. pad[i := (pad ! i) XOR (key ! i)]) (replicate 64 p) [0..<Suc n] =
      (map (\<lambda>b. p XOR b) (take n key) @ p # replicate j p)[n := p XOR key ! n]"
      using l by (simp add: j nth_append)
    also have "\<dots> = map (\<lambda>b. p XOR b) (take (Suc n) key) @ replicate (64 - Suc n) p"
      using Suc.prems l j by (simp add: list_update_append take_Suc_conv_app_nth)
    finally show ?case .
  qed simp
  from this [of "length key"] show ?thesis by (simp add: xor_key_def)
qed

lemma xor_bytes_map2:
  "length a = 32 \<Longrightarrow> length b = 32 \<Longrightarrow> xor_bytes a b = map2 (XOR) a b"
  by (simp add: xor_bytes_def list_eq_iff_nth_eq)

text \<open>Two passes of a streaming hash compute HMAC: proved for every such hash.\<close>

context stream_hash
begin

lemma two_pass_hmac:
  assumes "usable c" "usable c'" "length key \<le> 64"
  shows "snd (final (update (update (init c') (map (\<lambda>b. 0x5c XOR b) (hmac_key H key)))
           (snd (final (update (update (init c) (map (\<lambda>b. 0x36 XOR b) (hmac_key H key))) msg))))) =
         hmac_spec H key msg"
  using assms by (simp add: hash_two_parts hmac_spec_def)

lemma hmac_key_hashed:
  "64 < length key \<Longrightarrow> L \<le> 64 \<Longrightarrow> hmac_key H (H key) = hmac_key H key"
  by (simp add: hmac_key_def length_H)

lemma length_hmac_spec: "length (hmac_spec H key msg) = L"
  by (simp add: hmac_spec_def length_H)

end

abbreviation sha256_hash :: "bytes \<Rightarrow> bytes" where
  "sha256_hash \<equiv> hash_with schedule"

lemma hmac_sha256_spec:
  assumes "usable_ctx g"
  shows "hmac_sha256 g key data = hmac_spec sha256_hash key data"
proof (cases "length key > 64")
  case True
  let ?f = "sha256_final (sha256_update (sha256_init g) key)"
  have f: "snd ?f = sha256_hash key" "usable_ctx (fst ?f)"
    using assms by (simp_all add: sha.hash_once sha.usable_again)
  let ?g = "sha256_final (sha256_update (sha256_update (sha256_init (fst ?f)) (xor_key 0x36 (snd ?f))) data)"
  have x: "xor_key p (sha256_hash key) = map (\<lambda>b. p XOR b) (hmac_key sha256_hash key)" for p
    using True by (simp add: f xor_key_eq hmac_key_def sha.length_H)
  have g: "usable_ctx (fst ?g)" using f by (simp add: sha.hash_two_parts)
  have "hmac_sha256 g key data =
    snd (sha256_final (sha256_update (sha256_update (sha256_init (fst ?g)) (xor_key 0x5c (snd ?f))) (snd ?g)))"
    using True by (simp add: hmac_sha256_def Let_def split_def)
  also have "\<dots> = hmac_spec sha256_hash key data"
    using f g by (simp add: x hmac_spec_def sha.hash_two_parts)
  finally show ?thesis .
next
  case False
  let ?g = "sha256_final (sha256_update (sha256_update (sha256_init g) (xor_key 0x36 key)) data)"
  have x: "xor_key p key = map (\<lambda>b. p XOR b) (hmac_key sha256_hash key)" for p
    using False by (simp add: xor_key_eq hmac_key_def)
  have g: "usable_ctx (fst ?g)" using assms by (simp add: sha.hash_two_parts)
  have "hmac_sha256 g key data =
    snd (sha256_final (sha256_update (sha256_update (sha256_init (fst ?g)) (xor_key 0x5c key)) (snd ?g)))"
    using False by (simp add: hmac_sha256_def Let_def split_def)
  also have "\<dots> = hmac_spec sha256_hash key data"
    using False assms g by (simp add: x sha.two_pass_hmac)
  finally show ?thesis .
qed

lemma length_hmac_sha256: "usable_ctx g \<Longrightarrow> length (hmac_sha256 g key data) = 32"
  by (simp add: hmac_sha256_spec sha.length_hmac_spec)

lemma length_pbkdf2_U: "length (pbkdf2_U (hmac_spec sha256_hash) p s i) = 32"
  by (cases i) (simp_all add: sha.length_hmac_spec)

lemma length_pbkdf2_sum: "length (pbkdf2_sum (hmac_spec sha256_hash) p s i) = 32"
  by (induction i) (simp_all add: length_pbkdf2_U sha.length_hmac_spec)

lemma pbkdf2_loop:
  assumes "usable_ctx g"
  shows "foldl (pbkdf2_step g p) (pbkdf2_U (hmac_spec sha256_hash) p s 0,
             pbkdf2_sum (hmac_spec sha256_hash) p s 0) [1..<Suc n] =
         (pbkdf2_U (hmac_spec sha256_hash) p s n, pbkdf2_sum (hmac_spec sha256_hash) p s n)"
proof (induction n)
  case (Suc n)
  have l: "length (hmac_spec sha256_hash p m) = 32" for m by (rule sha.length_hmac_spec)
  from Suc show ?case
    by (simp add: hmac_sha256_spec assms xor_bytes_map2 length_pbkdf2_sum l Let_def)
qed simp

lemma four_cells:
  assumes "4 \<le> length xs"
  obtains a b c d r where "xs = a # b # c # d # r"
  using assms by (auto simp: numeral_eq_Suc Suc_le_length_iff)

text \<open>The salt with the block index behind it, as the four stores leave it.\<close>

lemma salt_block:
  assumes "length salt + 4 \<le> length buf"
  shows "take (length salt + 4) ((salt @ drop (length salt) buf)
           [length salt := 0, length salt + 1 := 0, length salt + 2 := 0, length salt + 3 := 1]) =
         salt @ [0, 0, 0, 1 :: byte]"
proof -
  from assms have "4 \<le> length (drop (length salt) buf)" by simp
  then obtain a b c d r where "drop (length salt) buf = a # b # c # d # r"
    by (rule four_cells)
  then show ?thesis by (simp add: list_update_append numeral_eq_Suc)
qed

lemma pbkdf2_sha256_spec:
  assumes "usable_ctx g" "length salt_buf = 64" "length salt \<le> 60"
  shows "pbkdf2_sha256 g salt_buf password salt iterations out_len =
         Some (take (min 32 out_len)
           (pbkdf2_sum (hmac_spec sha256_hash) password salt (unat iterations - 1)))"
proof -
  let ?n = "length salt" and ?mac = "hmac_spec sha256_hash"
  let ?b = "(salt @ drop ?n salt_buf)[?n := 0, ?n + 1 := 0, ?n + 2 := 0, ?n + 3 := 1]"
  have t: "hmac_sha256 g password (take (?n + 4) ?b) = pbkdf2_U ?mac password salt 0"
    using assms by (subst salt_block) (simp_all add: hmac_sha256_spec)
  have l: "foldl (pbkdf2_step g password) (pbkdf2_U ?mac password salt 0, pbkdf2_U ?mac password salt 0)
      [1..<unat iterations] =
    (pbkdf2_U ?mac password salt (unat iterations - 1), pbkdf2_sum ?mac password salt (unat iterations - 1))"
    using pbkdf2_loop [OF assms(1), of password salt "unat iterations - 1"]
    by (cases "unat iterations") simp_all
  have "pbkdf2_sha256 g salt_buf password salt iterations out_len =
    (let (u, t) = foldl (pbkdf2_step g password)
        (hmac_sha256 g password (take (?n + 4) ?b), hmac_sha256 g password (take (?n + 4) ?b))
        [1..<unat iterations]
     in Some (take (if out_len > 32 then 32 else out_len) t))"
    using assms by (simp add: pbkdf2_sha256_def Let_def)
  also have "\<dots> = Some (take (min 32 out_len) (pbkdf2_sum ?mac password salt (unat iterations - 1)))"
    unfolding t l by (simp add: min_def)
  finally show ?thesis .
qed

text \<open>A salt of more than 60 bytes is written past the end of the 64-byte buffer.\<close>

lemma pbkdf2_sha256_fault:
  assumes "length salt_buf = 64" "60 < length salt"
  shows "pbkdf2_sha256 g salt_buf password salt iterations out_len = None"
  using assms by (simp add: pbkdf2_sha256_def Let_def store_def poke_def)


section \<open>Properties\<close>

text \<open>
  C31. \<open>hmac_sha256\<close> is HMAC (RFC 2104) over the hash the code computes, for keys of every
  length: keys over 64 bytes are hashed first, shorter ones zero-padded.
\<close>

theorem hmac_sha256_correct:
  assumes "usable_ctx g"
  shows "hmac_sha256 g key data = hmac_spec sha256_hash key data"
  using assms by (rule hmac_sha256_spec)

theorem hmac_sha256_correct_witness:
  "hmac_sha256 \<lparr>sha_data = replicate 64 9, sha_datalen = 0, sha_bitlen = 0, sha_state = []\<rparr> [1] [2] =
   hmac_spec sha256_hash [1] [2]"
  by (rule hmac_sha256_correct) (simp add: usable_ctx_def)

text \<open>
  C32. What processing a server-first message computes, when the salt field is at most 60 bytes:
  nonce, salt and iteration count are the fields of the message, the salted password is the
  first PBKDF2 block over HMAC, and the stored key is the hash of
  \<open>HMAC(SaltedPassword, "Client Key")\<close>, all over the hash of this file and with the text of the
  salt field as salt. This is the shape of the key derivation of SCRAM, not its keys:
  SCRAM decodes the salt from base64 first, and the hash of this file is not SHA-256.
\<close>

theorem server_first_derives_keys:
  assumes "usable_ctx g" "length salt_buf = 64"
    and "strstr msg (text_of ''r='') = Some r" "strstr msg (text_of ''s='') = Some s"
      "strstr msg (text_of ''i='') = Some i"
    and "salt = scan_field 63 (drop 2 s) (sc_salt ctx)" "length salt \<le> 60"
    and "it = scan_unsigned (drop 2 i) (sc_iterations ctx)"
    and "sp = pbkdf2_sum (hmac_spec sha256_hash) password salt (unat it - 1)"
  shows "scram_sha256_process_server_first g salt_buf ctx msg password =
     Some (0, ctx\<lparr>sc_server_nonce := scan_field 31 (drop 2 r) (sc_server_nonce ctx), sc_salt := salt,
       sc_salt_len := length salt, sc_iterations := it, sc_salted_password := sp,
       sc_stored_key := sha256_hash (hmac_spec sha256_hash sp (text_of ''Client Key'')), sc_state := 1\<rparr>)"
proof -
  have "pbkdf2_sha256 g salt_buf password salt it 32 = Some sp"
    using pbkdf2_sha256_spec [OF assms(1,2,7)] by (simp add: assms(9) length_pbkdf2_sum)
  then show ?thesis
    using assms(1,3-8)
    by (simp add: scram_sha256_process_server_first_def Let_def hmac_sha256_spec sha.hash_once split_def)
qed

theorem server_first_derives_keys_witness:
  "scram_sha256_process_server_first
     \<lparr>sha_data = replicate 64 0, sha_datalen = 0, sha_bitlen = 0, sha_state = []\<rparr> (replicate 64 0) zero_scram
     (text_of ''r=x,s=yz,i=1'') (text_of ''pw'') =
   Some (0, zero_scram\<lparr>sc_server_nonce := text_of ''x'', sc_salt := text_of ''yz'', sc_salt_len := 2,
     sc_iterations := 1,
     sc_salted_password := pbkdf2_sum (hmac_spec sha256_hash) (text_of ''pw'') (text_of ''yz'') (unat (1 :: u32) - 1),
     sc_stored_key := sha256_hash (hmac_spec sha256_hash
        (pbkdf2_sum (hmac_spec sha256_hash) (text_of ''pw'') (text_of ''yz'') (unat (1 :: u32) - 1))
        (text_of ''Client Key'')), sc_state := 1\<rparr>)"
proof -
  have n: "scan_field 31 (drop 2 (text_of ''r=x,s=yz,i=1'')) (sc_server_nonce zero_scram) = text_of ''x''"
    "length (text_of ''yz'') = 2"
    by (simp_all add: scan_field_def)
  show ?thesis
    using server_first_derives_keys
      [of "\<lparr>sha_data = replicate 64 0, sha_datalen = 0, sha_bitlen = 0, sha_state = []\<rparr>" "replicate 64 0"
        "text_of ''r=x,s=yz,i=1''" "text_of ''r=x,s=yz,i=1''" "text_of ''s=yz,i=1''" "text_of ''i=1''"
        "text_of ''yz''" zero_scram 1
        "pbkdf2_sum (hmac_spec sha256_hash) (text_of ''pw'') (text_of ''yz'') (unat (1 :: u32) - 1)" "text_of ''pw''"]
    unfolding n
    by (simp add: usable_ctx_def scan_field_def scan_unsigned_def decimal_def is_digit_def is_space_def
        word_le_nat_alt)
qed

text \<open>
  C37. A server-first message with a salt of 61 bytes or more (the format \<open>%63[^,]\<close> admits
  63) makes \<open>pbkdf2_sha256\<close> store the block index past the end of its 64-byte buffer.
\<close>

theorem server_first_overflows:
  assumes "length salt_buf = 64" "strstr msg (text_of ''r='') = Some r"
    "strstr msg (text_of ''s='') = Some s" "strstr msg (text_of ''i='') = Some i"
    "60 < length (takeWhile (\<lambda>b. b \<noteq> ascii (CHR '','')) (drop 2 s))"
  shows "scram_sha256_process_server_first g salt_buf ctx msg password = None"
proof -
  let ?w = "takeWhile (\<lambda>b. b \<noteq> ascii (CHR '','')) (drop 2 s)"
  have "scan_field 63 (drop 2 s) (sc_salt ctx) = take 63 ?w"
    using assms(5) by (auto simp: scan_field_def Let_def)
  moreover have "60 < length (take 63 ?w)" using assms(5) by simp
  ultimately show ?thesis
    using assms(1-4) pbkdf2_sha256_fault [of salt_buf]
    by (simp add: scram_sha256_process_server_first_def Let_def)
qed

theorem server_first_overflows_witness:
  "scram_sha256_process_server_first
     \<lparr>sha_data = replicate 64 0, sha_datalen = 0, sha_bitlen = 0, sha_state = []\<rparr> (replicate 64 0) zero_scram
     (text_of ''r=x,i=1,s='' @ replicate 61 65) [] = None"
  by (rule server_first_overflows [where r = "text_of ''r=x,i=1,s='' @ replicate 61 65"
      and s = "text_of ''s='' @ replicate 61 65" and i = "text_of ''i=1,s='' @ replicate 61 65"]) simp_all

end
