(* ===== verification/Context.thy ===== *)
theory Context
  imports Events Scram
begin

text \<open>
  The context of \<open>src/src/pqwire.c\<close>: \<open>struct pqwire_ctx\<close>, its event ring
  (\<open>enqueue_event\<close>, \<open>dequeue_event\<close>), its output buffer (\<open>ensure_output\<close>,
  \<open>append_output\<close>, \<open>emit_msg\<close>, \<open>pqwire_get_output\<close>) and its life cycle
  (\<open>pqwire_create_with_config\<close>, \<open>pqwire_create\<close>, \<open>pqwire_destroy\<close>, \<open>pqwire_reset\<close>,
  \<open>pqwire_current_state\<close>, \<open>pqwire_note_ready\<close>, \<open>pqwire_start_auth\<close>).

  The environment supplies what the C library leaves open: whether an allocation succeeds
  (\<open>alloc_ok\<close>), what a fresh block contains (\<open>junk\<close>) and the values of \<open>rand()\<close>.
  The guard \<open>!ctx || ctx->magic != PQWIRE_MAGIC\<close>, which every entry point answers in one
  way for both disjuncts, is \<open>\<not> ctx_ok\<close>: a \<open>NULL\<close> context is represented by any context
  without the magic number.
\<close>

section \<open>State\<close>

datatype auth_state =
    AUTH_STATE_NONE | AUTH_STATE_CLIENT_FIRST | AUTH_STATE_CLIENT_FINAL
  | AUTH_STATE_SERVER_FIRST | AUTH_STATE_SERVER_FINAL | AUTH_STATE_DONE

datatype protocol_state =
    PROTO_STATE_STARTUP | PROTO_STATE_AUTHENTICATING | PROTO_STATE_READY
  | PROTO_STATE_QUERYING | PROTO_STATE_ERROR

datatype pqwire_role = PQWIRE_ROLE_CLIENT | PQWIRE_ROLE_SERVER

definition PQWIRE_MAGIC :: u32 where "PQWIRE_MAGIC = 0xABCD1234"
definition PQ_PROTO_3_0 :: u32 where "PQ_PROTO_3_0 = 0x00030000"
definition PQWIRE_ROW_ARENA :: nat where "PQWIRE_ROW_ARENA = 65536"

text \<open>
  \<open>input_buf\<close> and \<open>output_buf\<close> are the allocated blocks, of \<open>input_cap\<close> and
  \<open>output_cap\<close> bytes, of which the first \<open>input_len\<close> and \<open>output_len\<close> are in use;
  \<open>input_epoch\<close> counts the reallocations of the input block. \<open>row_arena\<close> is an array of
  \<open>PQWIRE_ROW_ARENA\<close> bytes, indexed from 0.
\<close>

record pqwire_ctx =
  magic :: u32
  role :: pqwire_role
  event_queue_size :: nat
  max_message_size :: nat
  events :: "protocol_event list"
  event_head :: nat
  event_tail :: nat
  event_count :: nat
  output_buf :: bytes
  output_len :: nat
  output_cap :: nat
  input_buf :: bytes
  input_len :: nat
  input_cap :: nat
  input_epoch :: nat
  user_scratch :: bytes
  db_scratch :: bytes
  sql_scratch :: bytes
  tag_scratch :: bytes
  col_scratch :: "nat pq_column_desc list"
  col_name_scratch :: "bytes list"
  row_arena :: "nat \<Rightarrow> byte"
  row_arena_used :: nat
  password :: bytes
  use_scram :: bool
  auth_state :: auth_state
  proto_state :: protocol_state
  scram_ctx :: scram_sha256_ctx
  startup_seen :: bool

datatype alloc_request = AllocContext | AllocEvents nat | AllocBytes nat

record env =
  alloc_ok :: "alloc_request \<Rightarrow> bool"
  junk :: "nat \<Rightarrow> byte"
  rand_vals :: "nat \<Rightarrow> nat"

definition ctx_ok :: "pqwire_ctx \<Rightarrow> bool" where
  "ctx_ok c \<longleftrightarrow> magic c = PQWIRE_MAGIC"

definition fresh_block :: "env \<Rightarrow> nat \<Rightarrow> bytes" where
  "fresh_block E n = map (junk E) [0..<n]"

text \<open>\<open>realloc\<close> to a larger block: the old bytes, then whatever the allocator left.\<close>

definition grown_block :: "env \<Rightarrow> bytes \<Rightarrow> nat \<Rightarrow> bytes" where
  "grown_block E old n = old @ map (junk E) [length old..<n]"

section \<open>The event ring\<close>

definition enqueue_event :: "pqwire_ctx \<Rightarrow> protocol_event \<Rightarrow> pqwire_ctx option" where
  "enqueue_event c ev = do {
     let c = (if event_count c \<ge> event_queue_size c
              then c\<lparr>event_head := (event_head c + 1) mod event_queue_size c,
                     event_count := event_count c - 1\<rparr>
              else c);
     evs \<leftarrow> store (events c) (event_tail c) ev;
     Some (c\<lparr>events := evs,
             event_tail := (event_tail c + 1) mod event_queue_size c,
             event_count := event_count c + 1\<rparr>)
   }"

definition dequeue_event :: "pqwire_ctx \<Rightarrow> (protocol_event option \<times> pqwire_ctx) option" where
  "dequeue_event c =
     (if event_count c = 0 then Some (None, c)
      else do {
        ev \<leftarrow> peek (events c) (event_head c);
        let c = c\<lparr>event_head := (event_head c + 1) mod event_queue_size c,
                  event_count := event_count c - 1\<rparr>;
        let c = (if event_count c = 0 then c\<lparr>row_arena_used := 0\<rparr> else c);
        Some (Some ev, c)
      })"

definition pqwire_next_event :: "pqwire_ctx \<Rightarrow> (protocol_event option \<times> pqwire_ctx) option" where
  "pqwire_next_event c = (if \<not> ctx_ok c then Some (None, c) else dequeue_event c)"

section \<open>The output buffer\<close>

text \<open>\<open>ensure_output\<close>: \<open>None\<close> where the C function returns -1.\<close>

definition ensure_output :: "env \<Rightarrow> pqwire_ctx \<Rightarrow> nat \<Rightarrow> pqwire_ctx option" where
  "ensure_output E c need =
     (if output_len c + need \<le> output_cap c then Some c
      else let new_cap = output_cap c * 2 + need + 1024
           in if alloc_ok E (AllocBytes new_cap)
              then Some (c\<lparr>output_buf := grown_block E (output_buf c) new_cap,
                           output_cap := new_cap\<rparr>)
              else None)"

definition append_output :: "env \<Rightarrow> pqwire_ctx \<Rightarrow> bytes \<Rightarrow> pqwire_ctx option" where
  "append_output E c bs =
     (case ensure_output E c (length bs) of
        None \<Rightarrow> Some c
      | Some c \<Rightarrow> do {
          buf \<leftarrow> poke (output_buf c) (output_len c) bs;
          Some (c\<lparr>output_buf := buf, output_len := output_len c + length bs\<rparr>)
        })"

text \<open>\<open>emit_msg\<close>; a \<open>NULL\<close> payload comes with \<open>plen = 0\<close>, the empty list here.\<close>

definition emit_msg :: "env \<Rightarrow> pqwire_ctx \<Rightarrow> byte \<Rightarrow> bytes \<Rightarrow> (int \<times> pqwire_ctx) option" where
  "emit_msg E c type payload = do {
     let len = (of_nat (length payload + 4) :: u32);
     c \<leftarrow> append_output E c (type # wr32_be len);
     c \<leftarrow> (if payload \<noteq> [] then append_output E c payload else Some c);
     Some (0, c)
   }"

text \<open>
  \<open>pqwire_get_output\<close> into a buffer of \<open>max_len\<close> bytes (\<open>None\<close>: the \<open>NULL\<close> buffer):
  the bytes copied, whose number is the return value.
\<close>

definition pqwire_get_output :: "pqwire_ctx \<Rightarrow> nat option \<Rightarrow> (bytes \<times> pqwire_ctx) option" where
  "pqwire_get_output c max_len =
     (case max_len of
        None \<Rightarrow> Some ([], c)
      | Some n \<Rightarrow>
          if n = 0 then Some ([], c)
          else do {
            let to_copy = (if output_len c < n then output_len c else n);
            out \<leftarrow> mem_read (output_buf c) 0 to_copy;
            rest \<leftarrow> mem_read (output_buf c) to_copy (output_len c - to_copy);
            buf \<leftarrow> poke (output_buf c) 0 rest;
            Some (out, c\<lparr>output_buf := buf, output_len := output_len c - to_copy\<rparr>)
          })"

section \<open>Life cycle\<close>

record pqwire_config =
  cfg_event_queue_size :: int
  cfg_password :: "bytes option"
  cfg_use_scram :: bool
  cfg_max_message_size :: nat

definition zero_col :: "nat pq_column_desc" where
  "zero_col = \<lparr>cd_name = None, cd_oid = 0, cd_format = 0\<rparr>"

text \<open>\<open>pqwire_create_with_config\<close>; \<open>None\<close> is the \<open>NULL\<close> it returns on failure.\<close>

definition pqwire_create_with_config ::
  "env \<Rightarrow> pqwire_role \<Rightarrow> pqwire_config option \<Rightarrow> pqwire_ctx option" where
  "pqwire_create_with_config E r config =
     (case config of
        None \<Rightarrow> None
      | Some cfg \<Rightarrow>
          if cfg_event_queue_size cfg \<le> 0 then None
          else if \<not> alloc_ok E AllocContext then None
          else let n = nat (cfg_event_queue_size cfg)
               in if \<not> alloc_ok E (AllocEvents n) \<or> \<not> alloc_ok E (AllocBytes 4096) then None
                  else Some
                    \<lparr>magic = PQWIRE_MAGIC, role = r, event_queue_size = n,
                     max_message_size =
                       (if cfg_max_message_size cfg \<noteq> 0 then cfg_max_message_size cfg
                        else 16 * 1024 * 1024),
                     events = replicate n zero_event,
                     event_head = 0, event_tail = 0, event_count = 0,
                     output_buf = fresh_block E 4096, output_len = 0, output_cap = 4096,
                     input_buf = fresh_block E 4096, input_len = 0, input_cap = 4096,
                     input_epoch = 0,
                     user_scratch = [], db_scratch = [], sql_scratch = [], tag_scratch = [],
                     col_scratch = replicate PQWIRE_MAX_ROW_COLUMNS zero_col,
                     col_name_scratch = replicate PQWIRE_MAX_ROW_COLUMNS [],
                     row_arena = (\<lambda>_. 0), row_arena_used = 0,
                     password = (case cfg_password cfg of None \<Rightarrow> [] | Some p \<Rightarrow> take 255 p),
                     use_scram = cfg_use_scram cfg,
                     auth_state = AUTH_STATE_NONE, proto_state = PROTO_STATE_STARTUP,
                     scram_ctx = zero_scram, startup_seen = False\<rparr>)"

definition pqwire_create :: "env \<Rightarrow> pqwire_role \<Rightarrow> pqwire_ctx option" where
  "pqwire_create E r =
     pqwire_create_with_config E r
       (Some \<lparr>cfg_event_queue_size = 16, cfg_password = None, cfg_use_scram = True,
              cfg_max_message_size = 0\<rparr>)"

text \<open>
  \<open>pqwire_destroy\<close>: whether the storage is freed, and the context as it is when that
  happens.
\<close>

definition pqwire_destroy :: "pqwire_ctx \<Rightarrow> bool \<times> pqwire_ctx" where
  "pqwire_destroy c = (if \<not> ctx_ok c then (False, c) else (True, c\<lparr>magic := 0\<rparr>))"

definition pqwire_reset :: "pqwire_ctx \<Rightarrow> pqwire_ctx" where
  "pqwire_reset c =
     (if \<not> ctx_ok c then c
      else c\<lparr>event_head := 0, event_tail := 0, event_count := 0,
             output_len := 0, input_len := 0,
             auth_state := AUTH_STATE_NONE, proto_state := PROTO_STATE_STARTUP,
             startup_seen := False, scram_ctx := zero_scram\<rparr>)"

fun proto_code :: "protocol_state \<Rightarrow> int" where
  "proto_code PROTO_STATE_STARTUP = 0"
| "proto_code PROTO_STATE_AUTHENTICATING = 1"
| "proto_code PROTO_STATE_READY = 2"
| "proto_code PROTO_STATE_QUERYING = 3"
| "proto_code PROTO_STATE_ERROR = 4"

definition pqwire_current_state :: "pqwire_ctx \<Rightarrow> int" where
  "pqwire_current_state c = (if \<not> ctx_ok c then - 1 else proto_code (proto_state c))"

definition pqwire_note_ready :: "pqwire_ctx \<Rightarrow> pqwire_ctx" where
  "pqwire_note_ready c = (if \<not> ctx_ok c then c else c\<lparr>proto_state := PROTO_STATE_READY\<rparr>)"

text \<open>
  \<open>pqwire_start_auth\<close>: the message is built in a stack buffer of 512 bytes at offset 0.
\<close>

definition pqwire_start_auth :: "env \<Rightarrow> pqwire_ctx \<Rightarrow> (int \<times> pqwire_ctx) option" where
  "pqwire_start_auth E c =
     (if \<not> ctx_ok c \<or> auth_state c \<noteq> AUTH_STATE_NONE then Some (- 1, c)
      else if role c = PQWIRE_ROLE_CLIENT \<and> use_scram c \<and> password c \<noteq> []
      then do {
        let c = c\<lparr>scram_ctx := scram_sha256_init (rand_vals E),
                  auth_state := AUTH_STATE_CLIENT_FIRST\<rparr>;
        let (rc, first) = scram_sha256_client_first (scram_ctx c) 256;
        if rc = 0
        then do {
          buf \<leftarrow> put 512 [] [ascii (CHR ''p'')];
          buf \<leftarrow> put 512 buf (wr32_be (of_nat (4 + length first + 1)));
          buf \<leftarrow> put 512 buf (first @ [0]);
          c \<leftarrow> append_output E c buf;
          Some (0, c)
        }
        else Some (0, c)
      }
      else Some (0, c))"

section \<open>What a context represents\<close>

text \<open>The queued events, oldest first; the unread output; the unparsed input.\<close>

definition ring_items :: "pqwire_ctx \<Rightarrow> protocol_event list" where
  "ring_items c =
     map (\<lambda>i. events c ! ((event_head c + i) mod event_queue_size c)) [0..<event_count c]"

definition output_bytes :: "pqwire_ctx \<Rightarrow> bytes" where
  "output_bytes c = take (output_len c) (output_buf c)"

definition pending_input :: "pqwire_ctx \<Rightarrow> bytes" where
  "pending_input c = take (input_len c) (input_buf c)"

section \<open>Invariant\<close>

definition wf_ring :: "pqwire_ctx \<Rightarrow> bool" where
  "wf_ring c \<longleftrightarrow>
     0 < event_queue_size c \<and> length (events c) = event_queue_size c \<and>
     event_head c < event_queue_size c \<and> event_count c \<le> event_queue_size c \<and>
     event_tail c = (event_head c + event_count c) mod event_queue_size c"

definition wf_output :: "pqwire_ctx \<Rightarrow> bool" where
  "wf_output c \<longleftrightarrow> length (output_buf c) = output_cap c \<and> output_len c \<le> output_cap c"

definition wf_input :: "pqwire_ctx \<Rightarrow> bool" where
  "wf_input c \<longleftrightarrow> length (input_buf c) = input_cap c \<and> input_len c \<le> input_cap c"

definition wf_scratch :: "pqwire_ctx \<Rightarrow> bool" where
  "wf_scratch c \<longleftrightarrow>
     fits 128 (user_scratch c) \<and> fits 128 (db_scratch c) \<and>
     fits PQWIRE_MAX_QUERY_LEN (sql_scratch c) \<and> fits 64 (tag_scratch c) \<and>
     length (col_scratch c) = PQWIRE_MAX_ROW_COLUMNS \<and>
     length (col_name_scratch c) = PQWIRE_MAX_ROW_COLUMNS \<and>
     (\<forall>s \<in> set (col_name_scratch c). fits 64 s) \<and>
     row_arena_used c \<le> PQWIRE_ROW_ARENA"

definition wf_ctx :: "pqwire_ctx \<Rightarrow> bool" where
  "wf_ctx c \<longleftrightarrow>
     wf_ring c \<and> wf_output c \<and> wf_input c \<and> wf_scratch c \<and>
     (\<forall>ev \<in> set (ring_items c). wf_event ev)"

lemmas wf_defs = wf_ctx_def wf_ring_def wf_output_def wf_input_def wf_scratch_def

section \<open>The ring is a bounded queue\<close>

text \<open>
  The contract of a bounded queue that makes room by dropping its oldest entry, with the
  consequences its users need for whole sequences of operations.
\<close>

fun enq_all :: "('q \<Rightarrow> 'a \<Rightarrow> 'q option) \<Rightarrow> 'q \<Rightarrow> 'a list \<Rightarrow> 'q option" where
  "enq_all enq q [] = Some q"
| "enq_all enq q (x # xs) = Option.bind (enq q x) (\<lambda>q. enq_all enq q xs)"

fun deq_n :: "('q \<Rightarrow> ('a option \<times> 'q) option) \<Rightarrow> nat \<Rightarrow> 'q \<Rightarrow> ('a list \<times> 'q) option" where
  "deq_n deq 0 q = Some ([], q)"
| "deq_n deq (Suc n) q =
     Option.bind (deq q) (\<lambda>(x, q).
       case x of None \<Rightarrow> Some ([], q)
       | Some x \<Rightarrow> map_option (\<lambda>(xs, q). (x # xs, q)) (deq_n deq n q))"

definition keep_last :: "nat \<Rightarrow> 'a list \<Rightarrow> 'a list" where
  "keep_last n xs = drop (length xs - n) xs"

lemma keep_last_short [simp]: "length xs \<le> n \<Longrightarrow> keep_last n xs = xs"
  by (simp add: keep_last_def)

lemma keep_last_snoc: "keep_last n (keep_last n xs @ ys) = keep_last n (xs @ ys)"
proof (cases "length xs \<le> n")
  case False
  then show ?thesis by (simp add: keep_last_def add.commute)
qed simp

lemma length_keep_last: "length (keep_last n xs) = min n (length xs)"
  by (simp add: keep_last_def)

locale bounded_queue =
  fixes enq :: "'q \<Rightarrow> 'a \<Rightarrow> 'q option" and deq :: "'q \<Rightarrow> ('a option \<times> 'q) option"
    and items :: "'q \<Rightarrow> 'a list" and cap :: "'q \<Rightarrow> nat" and invar :: "'q \<Rightarrow> bool"
  assumes enq_ok: "invar q \<Longrightarrow>
      \<exists>q'. enq q x = Some q' \<and> invar q' \<and> cap q' = cap q \<and> items q' = keep_last (cap q) (items q @ [x])"
    and deq_none: "invar q \<Longrightarrow> items q = [] \<Longrightarrow> deq q = Some (None, q)"
    and deq_some: "invar q \<Longrightarrow> items q = x # xs \<Longrightarrow>
      \<exists>q'. deq q = Some (Some x, q') \<and> invar q' \<and> cap q' = cap q \<and> items q' = xs"
    and items_cap: "invar q \<Longrightarrow> length (items q) \<le> cap q"
begin

lemma enq_all_ok:
  "invar q \<Longrightarrow> \<exists>q'. enq_all enq q xs = Some q' \<and> invar q' \<and> cap q' = cap q \<and>
     items q' = keep_last (cap q) (items q @ xs)"
proof (induction xs arbitrary: q)
  case Nil
  then show ?case by (simp add: items_cap)
next
  case (Cons x xs)
  obtain q1 where q1: "enq q x = Some q1" "invar q1" "cap q1 = cap q"
    "items q1 = keep_last (cap q) (items q @ [x])"
    using enq_ok [OF Cons.prems] by blast
  from Cons.IH [OF q1(2)] q1 show ?case by (simp add: keep_last_snoc)
qed

lemma deq_n_ok:
  "invar q \<Longrightarrow> \<exists>q'. deq_n deq n q = Some (take n (items q), q') \<and> invar q' \<and> cap q' = cap q \<and>
     items q' = drop n (items q)"
proof (induction n arbitrary: q)
  case (Suc n)
  show ?case
  proof (cases "items q")
    case Nil
    then show ?thesis using Suc.prems by (simp add: deq_none)
  next
    case (Cons x xs)
    obtain q1 where q1: "deq q = Some (Some x, q1)" "invar q1" "cap q1 = cap q" "items q1 = xs"
      using deq_some [OF Suc.prems Cons] by blast
    from Suc.IH [OF q1(2)] q1 Cons show ?thesis by auto
  qed
qed simp

text \<open>Entries come out in the order they went in, as long as they fit.\<close>

lemma fifo:
  assumes "invar q" "length (items q) + length xs \<le> cap q"
  shows "\<exists>q1 q2. enq_all enq q xs = Some q1 \<and>
           deq_n deq (length (items q) + length xs) q1 = Some (items q @ xs, q2) \<and> items q2 = []"
proof -
  obtain q1 where q1: "enq_all enq q xs = Some q1" "invar q1" "items q1 = items q @ xs"
    using enq_all_ok [OF assms(1), of xs] assms(2) by auto
  from deq_n_ok [OF q1(2), of "length (items q) + length xs"] q1 show ?thesis by auto
qed

end

lemma ring_index: "(h :: nat) < n \<Longrightarrow> i \<le> n \<Longrightarrow> (h + i) mod n = (if h + i < n then h + i else h + i - n)"
  by (auto simp: mod_if)

lemma ring_index_inj:
  "(h :: nat) < n \<Longrightarrow> i < n \<Longrightarrow> j < n \<Longrightarrow> (h + i) mod n = (h + j) mod n \<Longrightarrow> i = j"
  by (simp add: ring_index split: if_splits)

lemma ring_items_length [simp]: "length (ring_items c) = event_count c"
  by (simp add: ring_items_def)

text \<open>The ring operations touch nothing but the ring (and, on draining it, the arena mark).\<close>

definition ring_frame :: "pqwire_ctx \<Rightarrow> pqwire_ctx \<Rightarrow> bool" where
  "ring_frame c c' \<longleftrightarrow>
     (\<exists>evs h t n. c' = c\<lparr>events := evs, event_head := h, event_tail := t, event_count := n\<rparr>)"

lemma ring_frameI:
  "ring_frame c (c\<lparr>events := evs, event_head := h, event_tail := t, event_count := n\<rparr>)"
  by (auto simp: ring_frame_def)

lemma ring_frameD:
  assumes "ring_frame c c'"
  shows "magic c' = magic c" "role c' = role c" "event_queue_size c' = event_queue_size c"
    "max_message_size c' = max_message_size c" "output_buf c' = output_buf c"
    "output_len c' = output_len c" "output_cap c' = output_cap c" "input_buf c' = input_buf c"
    "input_len c' = input_len c" "input_cap c' = input_cap c" "input_epoch c' = input_epoch c"
    "user_scratch c' = user_scratch c" "db_scratch c' = db_scratch c"
    "sql_scratch c' = sql_scratch c" "tag_scratch c' = tag_scratch c"
    "col_scratch c' = col_scratch c" "col_name_scratch c' = col_name_scratch c"
    "row_arena c' = row_arena c" "row_arena_used c' = row_arena_used c"
    "password c' = password c" "use_scram c' = use_scram c" "auth_state c' = auth_state c"
    "proto_state c' = proto_state c" "scram_ctx c' = scram_ctx c" "startup_seen c' = startup_seen c"
  using assms by (auto simp: ring_frame_def)

lemma ring_advance: "0 < k \<Longrightarrow> (((h :: nat) + 1) mod n + (k - 1)) mod n = (h + k) mod n"
  by (cases k) (simp_all add: mod_simps)

lemma enqueue_room:
  assumes "wf_ring c" "event_count c < event_queue_size c"
  shows "\<exists>c'. enqueue_event c ev = Some c' \<and> wf_ring c' \<and> ring_frame c c' \<and>
              ring_items c' = ring_items c @ [ev]"
proof -
  let ?n = "event_queue_size c" and ?h = "event_head c" and ?k = "event_count c"
  let ?c = "c\<lparr>events := (events c)[event_tail c := ev],
              event_tail := (event_tail c + 1) mod ?n, event_count := ?k + 1\<rparr>"
  have w: "0 < ?n" "length (events c) = ?n" "?h < ?n" "event_tail c = (?h + ?k) mod ?n"
    using assms(1) by (auto simp: wf_ring_def)
  have "enqueue_event c ev = Some ?c"
    using w assms(2) by (simp add: enqueue_event_def Let_def)
  moreover have "wf_ring ?c"
    using w assms(2) by (auto simp: wf_ring_def mod_simps)
  moreover have "ring_items ?c = ring_items c @ [ev]"
  proof -
    have "(events c)[event_tail c := ev] ! ((?h + i) mod ?n) = events c ! ((?h + i) mod ?n)"
      if "i < ?k" for i
    proof -
      have "event_tail c \<noteq> (?h + i) mod ?n"
        using ring_index_inj [OF w(3), of ?k i] that assms(2) w(4) by auto
      then show ?thesis by simp
    qed
    then show ?thesis using w by (simp add: ring_items_def)
  qed
  moreover have "ring_frame c ?c" unfolding ring_frame_def
    by (rule exI, rule exI [of _ ?h], rule exI, rule exI) simp
  ultimately show ?thesis by blast
qed

lemma enqueue_full:
  assumes "wf_ring c" "event_count c = event_queue_size c"
  shows "\<exists>c'. enqueue_event c ev = Some c' \<and> wf_ring c' \<and> ring_frame c c' \<and>
              ring_items c' = tl (ring_items c) @ [ev]"
proof -
  let ?n = "event_queue_size c" and ?h = "event_head c"
  let ?c = "c\<lparr>event_head := (?h + 1) mod ?n, event_count := ?n - 1\<rparr>"
  have w: "0 < ?n" "?h < ?n" "length (events c) = ?n" "event_tail c = (?h + ?n) mod ?n"
    using assms by (auto simp: wf_ring_def)
  have r: "wf_ring ?c"
    using w ring_advance [of ?n ?h ?n] by (simp add: wf_ring_def)
  have i: "ring_items ?c = tl (ring_items c)"
    using w assms(2)
    by (auto simp: ring_items_def mod_simps simp flip: map_tl intro!: nth_equalityI)
  have e: "enqueue_event c ev = enqueue_event ?c ev"
    using assms(2) w(1) by (simp add: enqueue_event_def Let_def)
  obtain c' where "enqueue_event ?c ev = Some c'" "wf_ring c'" "ring_frame ?c c'"
      "ring_items c' = ring_items ?c @ [ev]"
    using enqueue_room [OF r, of ev] w(1) by auto
  then show ?thesis using e i by (intro exI [of _ c']) (auto simp: ring_frame_def)
qed

lemma enqueue_event_ok:
  assumes "wf_ring c"
  shows "\<exists>c'. enqueue_event c ev = Some c' \<and> wf_ring c' \<and> ring_frame c c' \<and>
              ring_items c' = keep_last (event_queue_size c) (ring_items c @ [ev])"
proof (cases "event_count c < event_queue_size c")
  case True
  then show ?thesis using enqueue_room [OF assms] by simp
next
  case False
  then have f: "event_count c = event_queue_size c" using assms by (simp add: wf_ring_def)
  then have "ring_items c \<noteq> []" using assms by (auto simp: wf_ring_def ring_items_def)
  then have "keep_last (event_queue_size c) (ring_items c @ [ev]) = tl (ring_items c) @ [ev]"
    using f by (cases "ring_items c") (auto simp: keep_last_def dest: arg_cong [of _ _ length])
  then show ?thesis using enqueue_full [OF assms f] by simp
qed

lemma dequeue_event_none: "event_count c = 0 \<Longrightarrow> dequeue_event c = Some (None, c)"
  by (simp add: dequeue_event_def)

lemma dequeue_event_some:
  assumes "wf_ring c" "0 < event_count c"
  shows "\<exists>c'. dequeue_event c = Some (Some (hd (ring_items c)), c') \<and> wf_ring c' \<and>
              ring_items c' = tl (ring_items c) \<and>
              ring_frame (c\<lparr>row_arena_used := row_arena_used c'\<rparr>) c' \<and>
              row_arena_used c' = (if event_count c = 1 then 0 else row_arena_used c)"
proof -
  let ?n = "event_queue_size c" and ?h = "event_head c" and ?k = "event_count c"
  let ?c = "c\<lparr>event_head := (?h + 1) mod ?n, event_count := ?k - 1,
              row_arena_used := (if ?k = 1 then 0 else row_arena_used c)\<rparr>"
  have w: "0 < ?n" "?h < ?n" "length (events c) = ?n" "?k \<le> ?n" "event_tail c = (?h + ?k) mod ?n"
    using assms by (auto simp: wf_ring_def)
  have "hd (ring_items c) = events c ! ?h"
    using assms(2) w by (simp add: ring_items_def hd_map upt_conv_Cons)
  then have "dequeue_event c = Some (Some (hd (ring_items c)), ?c)"
    using assms(2) w by (auto simp: dequeue_event_def Let_def)
  moreover have "wf_ring ?c"
    using w assms(2) ring_advance [of ?k ?h ?n] by (auto simp: wf_ring_def)
  moreover have "ring_items ?c = tl (ring_items c)"
    using w by (auto simp: ring_items_def mod_simps simp flip: map_tl intro!: nth_equalityI)
  moreover have "ring_frame (c\<lparr>row_arena_used := row_arena_used ?c\<rparr>) ?c" unfolding ring_frame_def
    by (rule exI [of _ "events c"], rule exI [of _ "(?h + 1) mod ?n"],
        rule exI [of _ "event_tail c"], rule exI [of _ "?k - 1"]) simp
  ultimately show ?thesis by (intro exI [of _ ?c]) simp
qed

interpretation ring: bounded_queue enqueue_event dequeue_event ring_items event_queue_size wf_ring
proof unfold_locales
  fix c ev assume "wf_ring c"
  from enqueue_event_ok [OF this, of ev]
  show "\<exists>c'. enqueue_event c ev = Some c' \<and> wf_ring c' \<and> event_queue_size c' = event_queue_size c \<and>
      ring_items c' = keep_last (event_queue_size c) (ring_items c @ [ev])"
    by (blast dest: ring_frameD)
next
  fix c assume "wf_ring c" "ring_items c = []"
  then show "dequeue_event c = Some (None, c)"
    by (simp add: ring_items_def dequeue_event_none)
next
  fix c ev evs assume w: "wf_ring c" and i: "ring_items c = ev # evs"
  then have "0 < event_count c" by (auto dest: arg_cong [of _ _ length])
  from dequeue_event_some [OF w this] i
  show "\<exists>c'. dequeue_event c = Some (Some ev, c') \<and> wf_ring c' \<and>
      event_queue_size c' = event_queue_size c \<and> ring_items c' = evs"
    by (auto dest: ring_frameD)
next
  fix c assume "wf_ring c"
  then show "length (ring_items c) \<le> event_queue_size c" by (simp add: wf_ring_def)
qed

lemma next_event_ok:
  assumes "wf_ring c" "ctx_ok c"
  shows "pqwire_next_event c = dequeue_event c"
  using assms by (simp add: pqwire_next_event_def)

section \<open>The output buffer is a byte queue\<close>

definition output_frame :: "pqwire_ctx \<Rightarrow> pqwire_ctx \<Rightarrow> bool" where
  "output_frame c c' \<longleftrightarrow>
     (\<exists>b n m. c' = c\<lparr>output_buf := b, output_len := n, output_cap := m\<rparr>)"

lemma output_frameD:
  assumes "output_frame c c'"
  shows "magic c' = magic c" "role c' = role c" "event_queue_size c' = event_queue_size c"
    "max_message_size c' = max_message_size c" "events c' = events c"
    "event_head c' = event_head c" "event_tail c' = event_tail c" "event_count c' = event_count c"
    "input_buf c' = input_buf c"
    "input_len c' = input_len c" "input_cap c' = input_cap c" "input_epoch c' = input_epoch c"
    "user_scratch c' = user_scratch c" "db_scratch c' = db_scratch c"
    "sql_scratch c' = sql_scratch c" "tag_scratch c' = tag_scratch c"
    "col_scratch c' = col_scratch c" "col_name_scratch c' = col_name_scratch c"
    "row_arena c' = row_arena c" "row_arena_used c' = row_arena_used c"
    "password c' = password c" "use_scram c' = use_scram c" "auth_state c' = auth_state c"
    "proto_state c' = proto_state c" "scram_ctx c' = scram_ctx c" "startup_seen c' = startup_seen c"
    "ring_items c' = ring_items c" "pending_input c' = pending_input c"
  using assms by (auto simp: output_frame_def ring_items_def pending_input_def)

lemma output_frame_refl [simp]: "output_frame c c"
  unfolding output_frame_def
  by (rule exI [of _ "output_buf c"], rule exI [of _ "output_len c"],
      rule exI [of _ "output_cap c"]) simp

lemma output_frame_grow [simp]: "output_frame c (c\<lparr>output_buf := b, output_cap := m\<rparr>)"
  unfolding output_frame_def
  by (rule exI, rule exI [of _ "output_len c"], rule exI [of _ m]) simp

lemma output_frame_put [simp]: "output_frame c (c\<lparr>output_buf := b, output_len := n\<rparr>)"
  unfolding output_frame_def
  by (rule exI, rule exI [of _ n], rule exI [of _ "output_cap c"]) simp

lemma output_frame_trans: "output_frame a b \<Longrightarrow> output_frame b c \<Longrightarrow> output_frame a c"
  unfolding output_frame_def by force

lemma output_frame_wf: "wf_ctx c \<Longrightarrow> output_frame c c' \<Longrightarrow> wf_output c' \<Longrightarrow> wf_ctx c'"
  by (auto simp: wf_ctx_def wf_ring_def wf_input_def wf_scratch_def output_frameD)

text \<open>Every request for more output space is granted.\<close>

definition can_grow :: "env \<Rightarrow> bool" where
  "can_grow E \<longleftrightarrow> (\<forall>n. alloc_ok E (AllocBytes n))"

lemma append_output_ok:
  assumes "wf_output c"
  shows "\<exists>c'. append_output E c bs = Some c' \<and> wf_output c' \<and> output_frame c c' \<and>
     (output_bytes c' = output_bytes c @ bs \<or> output_bytes c' = output_bytes c \<and> \<not> can_grow E)"
proof (cases "ensure_output E c (length bs)")
  case None
  then have "\<not> can_grow E"
    by (auto simp: ensure_output_def can_grow_def Let_def split: if_splits)
  with None assms show ?thesis by (simp add: append_output_def)
next
  case (Some d)
  have d: "length (output_buf d) = output_cap d" "output_len d = output_len c"
    "output_len c + length bs \<le> output_cap d" "output_frame c d"
    "output_bytes d = output_bytes c"
    using Some assms
    by (auto simp: ensure_output_def wf_output_def Let_def grown_block_def output_bytes_def
        split: if_splits)
  let ?c = "d\<lparr>output_buf := take (output_len d) (output_buf d) @ bs @
                drop (output_len d + length bs) (output_buf d),
              output_len := output_len d + length bs\<rparr>"
  have "append_output E c bs = Some ?c"
    using Some d by (simp add: append_output_def)
  moreover have "wf_output ?c" using d by (simp add: wf_output_def)
  moreover have "output_frame c ?c" using d(4) by (rule output_frame_trans) simp
  moreover have "output_bytes ?c = output_bytes c @ bs"
    using d assms by (simp add: output_bytes_def wf_output_def)
  ultimately show ?thesis by blast
qed

lemma get_output_ok:
  assumes "wf_output c"
  shows "\<exists>c'. pqwire_get_output c (Some n) = Some (take n (output_bytes c), c') \<and> wf_output c' \<and>
     output_frame c c' \<and> output_bytes c' = drop n (output_bytes c)"
proof (cases "n = 0")
  case True
  then show ?thesis using assms by (simp add: pqwire_get_output_def)
next
  case False
  let ?t = "min (output_len c) n"
  let ?rest = "take (output_len c - ?t) (drop ?t (output_buf c))"
  let ?c = "c\<lparr>output_buf := ?rest @ drop (length ?rest) (output_buf c), output_len := output_len c - ?t\<rparr>"
  have w: "output_len c \<le> length (output_buf c)" "length (output_buf c) = output_cap c"
    using assms by (simp_all add: wf_output_def)
  have "pqwire_get_output c (Some n) = Some (take ?t (output_buf c), ?c)"
    using False w by (simp add: pqwire_get_output_def Let_def min_def)
  moreover have "take ?t (output_buf c) = take n (output_bytes c)"
    by (simp add: output_bytes_def min.commute)
  moreover have "output_bytes ?c = drop n (output_bytes c)"
    using w by (auto simp: output_bytes_def drop_take min_def)
  moreover have "wf_output ?c" using w by (simp add: wf_output_def)
  moreover have "output_frame c ?c" by simp
  ultimately show ?thesis by metis
qed

text \<open>
  The contract of a byte queue, and what it gives a reader that drains it in pieces of any
  size.
\<close>

fun get_chunks :: "('q \<Rightarrow> nat option \<Rightarrow> (bytes \<times> 'q) option) \<Rightarrow> 'q \<Rightarrow> nat list \<Rightarrow> (bytes \<times> 'q) option"
where
  "get_chunks get q [] = Some ([], q)"
| "get_chunks get q (n # ns) =
     Option.bind (get q (Some n)) (\<lambda>(bs, q).
       map_option (\<lambda>(bs', q). (bs @ bs', q)) (get_chunks get q ns))"

locale byte_queue =
  fixes app :: "'q \<Rightarrow> bytes \<Rightarrow> 'q option" and get :: "'q \<Rightarrow> nat option \<Rightarrow> (bytes \<times> 'q) option"
    and content :: "'q \<Rightarrow> bytes" and invar :: "'q \<Rightarrow> bool"
  assumes app_ok: "invar q \<Longrightarrow> \<exists>q'. app q bs = Some q' \<and> invar q' \<and> content q' = content q @ bs"
    and get_ok: "invar q \<Longrightarrow>
      \<exists>q'. get q (Some n) = Some (take n (content q), q') \<and> invar q' \<and> content q' = drop n (content q)"
begin

lemma get_chunks_ok:
  "invar q \<Longrightarrow> \<exists>q'. get_chunks get q ns = Some (take (sum_list ns) (content q), q') \<and> invar q' \<and>
     content q' = drop (sum_list ns) (content q)"
proof (induction ns arbitrary: q)
  case (Cons n ns)
  obtain q1 where q1: "get q (Some n) = Some (take n (content q), q1)" "invar q1"
    "content q1 = drop n (content q)"
    using get_ok [OF Cons.prems] by blast
  from Cons.IH [OF q1(2)] q1 show ?case
    by (auto simp: take_add add.commute)
qed simp

lemma get_chunks_all:
  "invar q \<Longrightarrow> length (content q) \<le> sum_list ns \<Longrightarrow>
   \<exists>q'. get_chunks get q ns = Some (content q, q') \<and> content q' = []"
  using get_chunks_ok [of q ns] by auto

end

text \<open>The output buffer of a context, in an environment that grants every request.\<close>

definition roomy_env :: env where
  "roomy_env = \<lparr>alloc_ok = (\<lambda>_. True), junk = (\<lambda>_. 0), rand_vals = (\<lambda>_. 0)\<rparr>"

lemma can_grow_roomy [simp]: "can_grow roomy_env"
  by (simp add: can_grow_def roomy_env_def)

interpretation outq: byte_queue "append_output roomy_env" pqwire_get_output output_bytes wf_output
proof unfold_locales
  fix c bs assume "wf_output c"
  then show "\<exists>c'. append_output roomy_env c bs = Some c' \<and> wf_output c' \<and>
      output_bytes c' = output_bytes c @ bs"
    using append_output_ok [of c roomy_env bs] by auto
next
  fix c n assume "wf_output c"
  then show "\<exists>c'. pqwire_get_output c (Some n) = Some (take n (output_bytes c), c') \<and> wf_output c' \<and>
      output_bytes c' = drop n (output_bytes c)"
    using get_output_ok [of c n] by blast
qed

lemma emit_msg_ok:
  assumes "wf_output c"
  shows "\<exists>c'. emit_msg E c t p = Some (0, c') \<and> wf_output c' \<and> output_frame c c' \<and>
     (can_grow E \<longrightarrow> output_bytes c' = output_bytes c @ t # wr32_be (of_nat (length p + 4)) @ p)"
proof -
  obtain c1 where c1: "append_output E c (t # wr32_be (of_nat (length p + 4))) = Some c1"
    "wf_output c1" "output_frame c c1"
    "can_grow E \<longrightarrow> output_bytes c1 = output_bytes c @ t # wr32_be (of_nat (length p + 4))"
    using append_output_ok [OF assms] by blast
  obtain c2 where c2: "append_output E c1 p = Some c2" "wf_output c2" "output_frame c1 c2"
    "can_grow E \<longrightarrow> output_bytes c2 = output_bytes c1 @ p"
    using append_output_ok [OF c1(2)] by blast
  show ?thesis
  proof (cases "p = []")
    case True
    with c1 show ?thesis by (simp add: emit_msg_def Let_def)
  next
    case False
    with c1 c2 show ?thesis
      by (auto simp: emit_msg_def Let_def intro: output_frame_trans)
  qed
qed

section \<open>Life cycle\<close>

lemma length_fresh_block [simp]: "length (fresh_block E n) = n"
  by (simp add: fresh_block_def)

lemma create_wf:
  assumes "pqwire_create_with_config E r cfg = Some c"
  shows "wf_ctx c" "ctx_ok c" "role c = r" "ring_items c = []" "output_bytes c = []"
    "pending_input c = []" "proto_state c = PROTO_STATE_STARTUP" "\<not> startup_seen c"
    "auth_state c = AUTH_STATE_NONE"
  using assms
  by (auto simp: pqwire_create_with_config_def wf_defs ctx_ok_def ring_items_def output_bytes_def
      pending_input_def limit_defs Let_def split: option.splits if_splits)

lemma reset_wf:
  assumes "wf_ctx c" "ctx_ok c"
  shows "wf_ctx (pqwire_reset c)" "ring_items (pqwire_reset c) = []"
    "output_bytes (pqwire_reset c) = []" "pending_input (pqwire_reset c) = []"
  using assms
  by (auto simp: pqwire_reset_def wf_defs ring_items_def output_bytes_def pending_input_def)

text \<open>A context as \<open>pqwire_create\<close> returns it when every allocation succeeds.\<close>

definition fresh_ctx :: "pqwire_role \<Rightarrow> pqwire_ctx" where
  "fresh_ctx r = the (pqwire_create roomy_env r)"

lemma create_fresh: "pqwire_create roomy_env r = Some (fresh_ctx r)"
  by (simp add: fresh_ctx_def pqwire_create_def pqwire_create_with_config_def roomy_env_def Let_def)

lemmas fresh_wf [simp] = create_wf [OF create_fresh [unfolded pqwire_create_def]]

lemma fresh_fields [simp]:
  "input_len (fresh_ctx r) = 0" "input_cap (fresh_ctx r) = 4096"
  "max_message_size (fresh_ctx r) = 16777216" "event_queue_size (fresh_ctx r) = 16"
  "output_len (fresh_ctx r) = 0" "output_cap (fresh_ctx r) = 4096" "input_epoch (fresh_ctx r) = 0"
  "row_arena_used (fresh_ctx r) = 0" "magic (fresh_ctx r) = PQWIRE_MAGIC"
  by (simp_all add: fresh_ctx_def pqwire_create_def pqwire_create_with_config_def roomy_env_def Let_def)

lemma wf_ctxD [dest]:
  assumes "wf_ctx c"
  shows "wf_ring c" "wf_output c" "wf_input c" "wf_scratch c"
  using assms by (auto simp: wf_ctx_def)

lemmas fresh_parts [simp] = wf_ctxD [OF fresh_wf(1)]

section \<open>Properties\<close>

text \<open>
  C18. The event queue is a bounded FIFO: whatever is queued already, after \<open>enqueue_event\<close> on
  a list of events and \<open>dequeue_event\<close> \<open>n\<close> times, the events come out in order, and when they
  do not fit the oldest are the ones lost.
\<close>

theorem event_queue_fifo:
  assumes "wf_ring c"
  shows "\<exists>c1 c2. enq_all enqueue_event c evs = Some c1 \<and>
     deq_n dequeue_event n c1 = Some (take n (keep_last (event_queue_size c) (ring_items c @ evs)), c2) \<and>
     ring_items c2 = drop n (keep_last (event_queue_size c) (ring_items c @ evs))"
proof -
  obtain c1 where c1: "enq_all enqueue_event c evs = Some c1" "wf_ring c1"
    "ring_items c1 = keep_last (event_queue_size c) (ring_items c @ evs)"
    using ring.enq_all_ok [OF assms, of evs] by blast
  from ring.deq_n_ok [OF c1(2), of n] c1 show ?thesis by auto
qed

theorem event_queue_fifo_witness:
  "\<exists>c1 c2. enq_all enqueue_event (fresh_ctx PQWIRE_ROLE_CLIENT) (replicate 20 zero_event) = Some c1 \<and>
     deq_n dequeue_event 3 c1 = Some (take 3 (keep_last (event_queue_size (fresh_ctx PQWIRE_ROLE_CLIENT))
       (ring_items (fresh_ctx PQWIRE_ROLE_CLIENT) @ replicate 20 zero_event)), c2) \<and>
     ring_items c2 = drop 3 (keep_last (event_queue_size (fresh_ctx PQWIRE_ROLE_CLIENT))
       (ring_items (fresh_ctx PQWIRE_ROLE_CLIENT) @ replicate 20 zero_event))"
  by (rule event_queue_fifo) auto

text \<open>
  C19. The output buffer is a byte queue: what was pending and what \<open>append_output\<close> adds comes
  out of \<open>pqwire_get_output\<close> in order and complete, read in pieces of any sizes that add up
  to enough, whenever the buffer can grow.
\<close>

theorem output_drains_in_order:
  assumes "wf_output c" "can_grow E" "length (output_bytes c) + length bs \<le> sum_list ns"
  shows "\<exists>c1 c2. append_output E c bs = Some c1 \<and>
     get_chunks pqwire_get_output c1 ns = Some (output_bytes c @ bs, c2) \<and> output_bytes c2 = []"
proof -
  obtain c1 where c1: "append_output E c bs = Some c1" "wf_output c1" "output_bytes c1 = output_bytes c @ bs"
    using append_output_ok [OF assms(1), of E bs] assms(2) by auto
  from outq.get_chunks_all [OF c1(2), of ns] c1 assms(3) show ?thesis by auto
qed

theorem output_drains_in_order_witness:
  "\<exists>c1 c2. append_output roomy_env (fresh_ctx PQWIRE_ROLE_CLIENT) [1, 2, 3] = Some c1 \<and>
     get_chunks pqwire_get_output c1 [2, 0, 5] = Some (output_bytes (fresh_ctx PQWIRE_ROLE_CLIENT) @ [1, 2, 3], c2) \<and>
     output_bytes c2 = []"
  by (rule output_drains_in_order) auto

text \<open>
  C40. A send that finds no memory is lost silently: when the output buffer is full and cannot
  grow, \<open>emit_msg\<close> still returns 0, and nothing was appended.
\<close>

theorem emit_msg_loses_message:
  assumes "output_len c = output_cap c" "\<And>n. \<not> alloc_ok E (AllocBytes n)"
  shows "emit_msg E c t payload = Some (0, c)"
  using assms by (simp add: emit_msg_def append_output_def ensure_output_def Let_def)

theorem emit_msg_loses_message_witness:
  "emit_msg (roomy_env\<lparr>alloc_ok := \<lambda>_. False\<rparr>)
     ((fresh_ctx PQWIRE_ROLE_CLIENT)\<lparr>output_len := 4096\<rparr>) 81 [0] =
   Some (0, (fresh_ctx PQWIRE_ROLE_CLIENT)\<lparr>output_len := 4096\<rparr>)"
  by (rule emit_msg_loses_message) simp_all

end
