(* ===== verification/Parsers.thy ===== *)
theory Parsers
  imports Context
begin

text \<open>
  The message parsers of \<open>src/src/pqwire.c\<close> (lines 302-830) and the role-aware dispatch
  \<open>handle_message\<close>. Each parser takes the context and the bytes of the message body and
  returns the context; \<open>None\<close> is a read or a store outside an object. A parser that gives
  up on a message (an early \<open>return\<close> before \<open>enqueue_event\<close>) returns the context without
  a new event.

  The body starts at offset \<open>base\<close> of the input buffer; the parsers that keep pointers to
  it (Bind, ParameterStatus) record them as \<open>InBuf\<close> pointers.
\<close>

definition mk_event :: "event_type \<Rightarrow> event_payload \<Rightarrow> protocol_event" where
  "mk_event t p = \<lparr>ev_type = t, ev_payload = p\<rparr>"

section \<open>Messages from the frontend\<close>

subsection \<open>StartupMessage\<close>

function startup_params :: "bytes \<Rightarrow> nat \<Rightarrow> pqwire_ctx \<Rightarrow> pqwire_ctx option" where
  "startup_params body off c =
     (if off + 1 < length body
      then case read_cstr_at body off of
             None \<Rightarrow> None
           | Some None \<Rightarrow> Some c
           | Some (Some (key, c1)) \<Rightarrow>
               if c1 \<le> 1 then Some c
               else case read_cstr_at body (off + c1) of
                      None \<Rightarrow> None
                    | Some None \<Rightarrow> Some c
                    | Some (Some (val, c2)) \<Rightarrow>
                        startup_params body (off + c1 + c2)
                          (if key = text_of ''user''
                           then c\<lparr>user_scratch := copy_cstr 128 (Some val)\<rparr>
                           else if key = text_of ''database''
                           then c\<lparr>db_scratch := copy_cstr 128 (Some val)\<rparr>
                           else c)
      else Some c)"
  by pat_completeness auto
termination
  by (relation "measure (\<lambda>(body, off, c). length body - off)") auto

declare startup_params.simps [simp del]

definition parse_startup_body :: "pqwire_ctx \<Rightarrow> bytes \<Rightarrow> pqwire_ctx option" where
  "parse_startup_body c body = do {
     let c = c\<lparr>user_scratch := [], db_scratch := []\<rparr>;
     c \<leftarrow> startup_params body 4 c;
     c \<leftarrow> enqueue_event c (mk_event PQ_EVENT_STARTUP (PStartup UserScratch DbScratch));
     let c = c\<lparr>startup_seen := True\<rparr>;
     Some (if role c = PQWIRE_ROLE_SERVER then c\<lparr>proto_state := PROTO_STATE_AUTHENTICATING\<rparr> else c)
   }"

subsection \<open>Parse\<close>

text \<open>The payload, or \<open>Some None\<close> where the C function returns without an event.\<close>

definition decode_parse :: "bytes \<Rightarrow> pq_parse option option" where
  "decode_parse body =
     (case read_cstr_at body 0 of
        None \<Rightarrow> None
      | Some None \<Rightarrow> Some None
      | Some (Some (name, c1)) \<Rightarrow>
          case read_cstr_at body c1 of
            None \<Rightarrow> None
          | Some None \<Rightarrow> Some None
          | Some (Some (query, c2)) \<Rightarrow> do {
              let p = zero_parse\<lparr>pa_statement := copy_cstr PQWIRE_MAX_STMT_NAME (Some name),
                                 pa_query := copy_cstr PQWIRE_MAX_QUERY_LEN (Some query)\<rparr>;
              let off = c1 + c2;
              if off + 2 \<le> length body
              then do {
                n \<leftarrow> rd16_be body off;
                let n = min (unat n) PQWIRE_MAX_PARAM_TYPES;
                (oids, _) \<leftarrow> read_array rd32_be 4 0 n body (off + 2) (pa_param_type_oids p);
                Some (Some (p\<lparr>pa_n_param_types := n, pa_param_type_oids := oids\<rparr>))
              }
              else Some (Some p)
            })"

definition parse_parse_msg :: "pqwire_ctx \<Rightarrow> bytes \<Rightarrow> pqwire_ctx option" where
  "parse_parse_msg c body = do {
     r \<leftarrow> decode_parse body;
     case r of None \<Rightarrow> Some c
     | Some p \<Rightarrow> enqueue_event c (mk_event PQ_EVENT_PARSE (PParse p))
   }"

subsection \<open>Bind\<close>

text \<open>The format of parameter \<open>i\<close>: none given, one for all, or one each.\<close>

definition param_format :: "nat \<Rightarrow> u16 list \<Rightarrow> nat \<Rightarrow> u16 option" where
  "param_format n_formats formats i =
     (if n_formats = 0 then Some 0
      else if n_formats = 1 then peek formats 0
      else if i < n_formats then peek formats i
      else Some 0)"

text \<open>
  The loop over the parameters (lines 441-462). \<open>Some None\<close> is the \<open>return\<close> from inside
  the loop. \<open>bp\<close> is the pointer to the body.
\<close>

function bind_params ::
  "(nat \<Rightarrow> data_ptr) \<Rightarrow> nat \<Rightarrow> u16 list \<Rightarrow> bytes \<Rightarrow> nat \<Rightarrow> nat \<Rightarrow> nat \<Rightarrow> pq_bind_param_view list \<Rightarrow>
   (pq_bind_param_view list \<times> nat) option option"
where
  "bind_params bp nf fmts body n i off ps =
     (if i < n \<and> off + 4 \<le> length body
      then case rd32_be body off of
             None \<Rightarrow> None
           | Some plen \<Rightarrow>
               let off = off + 4 in
               if sint plen \<ge> 0 \<and> off + unat plen > length body then Some None
               else case param_format nf fmts i of
                      None \<Rightarrow> None
                    | Some f \<Rightarrow>
                        let (d, off') = (if sint plen < 0 then (NullPtr, off)
                                         else (bp off, off + unat plen))
                        in case store ps i \<lparr>pv_length = plen, pv_data = d, pv_format = f\<rparr> of
                             None \<Rightarrow> None
                           | Some ps' \<Rightarrow> bind_params bp nf fmts body n (Suc i) off' ps'
      else Some (Some (ps, off)))"
  by pat_completeness auto
termination
  by (relation "measure (\<lambda>(bp, nf, fmts, body, n, i, off, ps). n - i)") auto

declare bind_params.simps [simp del]

text \<open>The rest of the body: result formats (464-475), parameters (432-462), formats (418-430).\<close>

definition decode_bind_results :: "bytes \<Rightarrow> pq_bind \<Rightarrow> nat \<Rightarrow> pq_bind option option" where
  "decode_bind_results body b off =
     (if off + 2 \<le> length body
      then do {
        n \<leftarrow> rd16_be body off;
        let nr = min (unat n) PQWIRE_MAX_BIND_PARAMS;
        (rf, _) \<leftarrow> read_array rd16_be 2 0 nr body (off + 2) (bi_result_formats b);
        Some (Some (b\<lparr>bi_n_result_formats := nr, bi_result_formats := rf\<rparr>))
      }
      else Some (Some b))"

definition decode_bind_params ::
  "(nat \<Rightarrow> data_ptr) \<Rightarrow> bytes \<Rightarrow> pq_bind \<Rightarrow> nat \<Rightarrow> pq_bind option option" where
  "decode_bind_params bp body b off =
     (if off + 2 > length body then Some None
      else do {
        n \<leftarrow> rd16_be body off;
        let np = min (unat n) PQWIRE_MAX_BIND_PARAMS;
        r \<leftarrow> bind_params bp (bi_n_formats b) (bi_formats b) body np 0 (off + 2) (bi_params b);
        case r of None \<Rightarrow> Some None
        | Some (ps, off) \<Rightarrow>
            decode_bind_results body (b\<lparr>bi_n_params := np, bi_params := ps\<rparr>) off
      })"

definition decode_bind_formats ::
  "(nat \<Rightarrow> data_ptr) \<Rightarrow> bytes \<Rightarrow> pq_bind \<Rightarrow> nat \<Rightarrow> pq_bind option option" where
  "decode_bind_formats bp body b off =
     (if off + 2 > length body then Some None
      else do {
        n \<leftarrow> rd16_be body off;
        let nf = min (unat n) PQWIRE_MAX_BIND_PARAMS;
        (fmts, off) \<leftarrow> read_array rd16_be 2 0 nf body (off + 2) (bi_formats b);
        decode_bind_params bp body (b\<lparr>bi_n_formats := nf, bi_formats := fmts\<rparr>) off
      })"

definition decode_bind :: "(nat \<Rightarrow> data_ptr) \<Rightarrow> bytes \<Rightarrow> pq_bind option option" where
  "decode_bind bp body =
     (case read_cstr_at body 0 of
        None \<Rightarrow> None
      | Some None \<Rightarrow> Some None
      | Some (Some (portal, c1)) \<Rightarrow>
          case read_cstr_at body c1 of
            None \<Rightarrow> None
          | Some None \<Rightarrow> Some None
          | Some (Some (stmt, c2)) \<Rightarrow>
              decode_bind_formats bp body
                (zero_bind\<lparr>bi_raw_body := bp 0, bi_raw_body_len := length body,
                           bi_portal := copy_cstr PQWIRE_MAX_PORTAL_NAME (Some portal),
                           bi_statement := copy_cstr PQWIRE_MAX_STMT_NAME (Some stmt)\<rparr>)
                (c1 + c2))"

text \<open>A pointer to offset \<open>off\<close> of the body, which starts at \<open>base\<close> in the input buffer.\<close>

definition body_ptr :: "pqwire_ctx \<Rightarrow> nat \<Rightarrow> nat \<Rightarrow> data_ptr" where
  "body_ptr c base off = InBuf (input_epoch c) (base + off)"

definition parse_bind_msg :: "pqwire_ctx \<Rightarrow> nat \<Rightarrow> bytes \<Rightarrow> pqwire_ctx option" where
  "parse_bind_msg c base body = do {
     r \<leftarrow> decode_bind (body_ptr c base) body;
     case r of None \<Rightarrow> Some c
     | Some b \<Rightarrow> enqueue_event c (mk_event PQ_EVENT_BIND (PBind b))
   }"

subsection \<open>Describe, Execute, Close, Query\<close>

text \<open>A target byte and a name: the body of Describe and of Close.\<close>

definition decode_target_name :: "bytes \<Rightarrow> (byte \<times> bytes) option option" where
  "decode_target_name body =
     (if length body < 1 then Some None
      else do {
        t \<leftarrow> peek body 0;
        r \<leftarrow> read_cstr_at body 1;
        Some (Some (t, case r of None \<Rightarrow> []
                       | Some (name, _) \<Rightarrow> copy_cstr PQWIRE_MAX_STMT_NAME (Some name)))
      })"

definition parse_describe_msg :: "pqwire_ctx \<Rightarrow> bytes \<Rightarrow> pqwire_ctx option" where
  "parse_describe_msg c body = do {
     r \<leftarrow> decode_target_name body;
     case r of None \<Rightarrow> Some c
     | Some (t, name) \<Rightarrow>
         enqueue_event c (mk_event PQ_EVENT_DESCRIBE (PDescribe \<lparr>de_target = t, de_name = name\<rparr>))
   }"

definition decode_execute :: "bytes \<Rightarrow> pq_execute option option" where
  "decode_execute body =
     (case read_cstr_at body 0 of
        None \<Rightarrow> None
      | Some None \<Rightarrow> Some None
      | Some (Some (portal, c1)) \<Rightarrow> do {
          let x = zero_execute\<lparr>ex_portal := copy_cstr PQWIRE_MAX_PORTAL_NAME (Some portal)\<rparr>;
          if c1 + 4 \<le> length body
          then do { m \<leftarrow> rd32_be body c1; Some (Some (x\<lparr>ex_max_rows := m\<rparr>)) }
          else Some (Some x)
        })"

definition parse_execute_msg :: "pqwire_ctx \<Rightarrow> bytes \<Rightarrow> pqwire_ctx option" where
  "parse_execute_msg c body = do {
     r \<leftarrow> decode_execute body;
     case r of None \<Rightarrow> Some c
     | Some x \<Rightarrow> enqueue_event c (mk_event PQ_EVENT_EXECUTE (PExecute x))
   }"

definition parse_close_msg :: "pqwire_ctx \<Rightarrow> bytes \<Rightarrow> pqwire_ctx option" where
  "parse_close_msg c body = do {
     r \<leftarrow> decode_target_name body;
     case r of None \<Rightarrow> Some c
     | Some (t, name) \<Rightarrow>
         enqueue_event c (mk_event PQ_EVENT_CLOSE (PClose \<lparr>cl_target = t, cl_name = name\<rparr>))
   }"

definition parse_query_msg :: "pqwire_ctx \<Rightarrow> bytes \<Rightarrow> pqwire_ctx option" where
  "parse_query_msg c body = do {
     r \<leftarrow> read_cstr_at body 0;
     let c = c\<lparr>sql_scratch := (case r of None \<Rightarrow> []
                               | Some (sql, _) \<Rightarrow> copy_cstr PQWIRE_MAX_QUERY_LEN (Some sql))\<rparr>;
     c \<leftarrow> enqueue_event c (mk_event PQ_EVENT_QUERY (PQuery SqlScratch));
     Some (c\<lparr>proto_state := PROTO_STATE_QUERYING\<rparr>)
   }"

section \<open>Messages from the backend\<close>

subsection \<open>ErrorResponse\<close>

definition error_field :: "pq_error \<Rightarrow> byte \<Rightarrow> bytes \<Rightarrow> pq_error" where
  "error_field e field val =
     (if field = ascii (CHR ''S'') then e\<lparr>severity := copy_cstr 32 (Some val)\<rparr>
      else if field = ascii (CHR ''C'') then e\<lparr>code := copy_cstr 8 (Some val)\<rparr>
      else if field = ascii (CHR ''M'') then e\<lparr>message := copy_cstr 256 (Some val)\<rparr>
      else if field = ascii (CHR ''D'') then e\<lparr>detail := copy_cstr 256 (Some val)\<rparr>
      else if field = ascii (CHR ''H'') then e\<lparr>hint := copy_cstr 256 (Some val)\<rparr>
      else if field = ascii (CHR ''P'') then e\<lparr>position := atoi val\<rparr>
      else e)"

function error_loop :: "bytes \<Rightarrow> nat \<Rightarrow> pq_error \<Rightarrow> pq_error option" where
  "error_loop body off e =
     (if off < length body
      then case peek body off of
             None \<Rightarrow> None
           | Some field \<Rightarrow>
               if field = 0 then Some e
               else case read_cstr_at body (off + 1) of
                      None \<Rightarrow> None
                    | Some None \<Rightarrow> Some e
                    | Some (Some (val, c)) \<Rightarrow>
                        error_loop body (off + 1 + c) (error_field e field val)
      else Some e)"
  by pat_completeness auto
termination
  by (relation "measure (\<lambda>(body, off, e). length body - off)") auto

declare error_loop.simps [simp del]

definition parse_error_response :: "pqwire_ctx \<Rightarrow> bytes \<Rightarrow> pqwire_ctx option" where
  "parse_error_response c body = do {
     e \<leftarrow> error_loop body 0 zero_error;
     enqueue_event c (mk_event PQ_EVENT_ERROR_RESPONSE (PError e))
   }"

subsection \<open>RowDescription\<close>

text \<open>The loop over the columns: the number of columns completed and the context.\<close>

function row_desc_cols :: "bytes \<Rightarrow> nat \<Rightarrow> nat \<Rightarrow> nat \<Rightarrow> pqwire_ctx \<Rightarrow> (nat \<times> pqwire_ctx) option" where
  "row_desc_cols body n i off c =
     (if i < n \<and> off < length body
      then case read_cstr_at body off of
             None \<Rightarrow> None
           | Some None \<Rightarrow> Some (i, c)
           | Some (Some (name, c1)) \<Rightarrow>
               (case store (col_name_scratch c) i (copy_cstr 64 (Some name)) of
                  None \<Rightarrow> None
                | Some names \<Rightarrow>
                    let c = c\<lparr>col_name_scratch := names\<rparr>; off = off + c1 in
                    if off + 18 > length body then Some (i, c)
                    else case (rd32_be body (off + 6), rd16_be body (off + 16)) of
                           (Some oid, Some fmt) \<Rightarrow>
                             (case store (col_scratch c) i
                                     \<lparr>cd_name = Some i, cd_oid = oid, cd_format = fmt\<rparr> of
                                None \<Rightarrow> None
                              | Some cols \<Rightarrow>
                                  row_desc_cols body n (Suc i) (off + 18) (c\<lparr>col_scratch := cols\<rparr>))
                         | _ \<Rightarrow> None)
      else Some (i, c))"
  by pat_completeness auto
termination
  by (relation "measure (\<lambda>(body, n, i, off, c). n - i)") auto

declare row_desc_cols.simps [simp del]

definition parse_row_description :: "pqwire_ctx \<Rightarrow> bytes \<Rightarrow> pqwire_ctx option" where
  "parse_row_description c body =
     (if length body < 2 then Some c
      else do {
        n \<leftarrow> rd16_be body 0;
        (i, c) \<leftarrow> row_desc_cols body (min (unat n) PQWIRE_MAX_ROW_COLUMNS) 0 2 c;
        enqueue_event c (mk_event PQ_EVENT_ROW_DESCRIPTION (PRowDesc i))
      })"

subsection \<open>DataRow\<close>

text \<open>\<open>memcpy\<close> into the row arena.\<close>

definition arena_write :: "(nat \<Rightarrow> byte) \<Rightarrow> nat \<Rightarrow> bytes \<Rightarrow> (nat \<Rightarrow> byte) option" where
  "arena_write a at bs =
     (if at + length bs \<le> PQWIRE_ROW_ARENA
      then Some (\<lambda>j. if at \<le> j \<and> j < at + length bs then bs ! (j - at) else a j)
      else None)"

text \<open>Column \<open>i\<close> of the row: \<open>data[i]\<close>, \<open>len[i]\<close>, \<open>format[i]\<close>, \<open>oid[i]\<close>.\<close>

definition set_column :: "pq_data_row \<Rightarrow> nat \<Rightarrow> data_ptr \<Rightarrow> nat \<Rightarrow> pq_data_row option" where
  "set_column r i d len = do {
     ds \<leftarrow> store (dr_data r) i d;
     ls \<leftarrow> store (dr_len r) i len;
     fs \<leftarrow> store (dr_format r) i 0;
     os \<leftarrow> store (dr_oid r) i 0;
     Some (r\<lparr>dr_data := ds, dr_len := ls, dr_format := fs, dr_oid := os\<rparr>)
   }"

text \<open>A column of \<open>need\<close> bytes at \<open>off\<close>: copied to the arena, or dropped when it is full.\<close>

definition take_column ::
  "bytes \<Rightarrow> nat \<Rightarrow> nat \<Rightarrow> nat \<Rightarrow> pq_data_row \<Rightarrow> pqwire_ctx \<Rightarrow> (pq_data_row \<times> pqwire_ctx) option" where
  "take_column body off need i r c =
     (if row_arena_used c + need > PQWIRE_ROW_ARENA
      then do { r \<leftarrow> set_column r i NullPtr 0; Some (r, c) }
      else do {
        bs \<leftarrow> mem_read body off need;
        a \<leftarrow> arena_write (row_arena c) (row_arena_used c) bs;
        r \<leftarrow> set_column r i (Arena (row_arena_used c)) need;
        Some (r, c\<lparr>row_arena := a, row_arena_used := row_arena_used c + need\<rparr>)
      })"

function data_row_cols ::
  "bytes \<Rightarrow> nat \<Rightarrow> nat \<Rightarrow> nat \<Rightarrow> pq_data_row \<Rightarrow> pqwire_ctx \<Rightarrow> (nat \<times> pq_data_row \<times> pqwire_ctx) option"
where
  "data_row_cols body n i off r c =
     (if i < n \<and> off + 4 \<le> length body
      then case rd32_be body off of
             None \<Rightarrow> None
           | Some plen \<Rightarrow>
               if sint plen < 0
               then (case set_column r i NullPtr 0 of
                       None \<Rightarrow> None
                     | Some r \<Rightarrow> data_row_cols body n (Suc i) (off + 4) r c)
               else if off + 4 + unat plen > length body then Some (i, r, c)
               else (case take_column body (off + 4) (unat plen) i r c of
                       None \<Rightarrow> None
                     | Some (r, c) \<Rightarrow> data_row_cols body n (Suc i) (off + 4 + unat plen) r c)
      else Some (i, r, c))"
  by pat_completeness auto
termination
  by (relation "measure (\<lambda>(body, n, i, off, r, c). n - i)") auto

declare data_row_cols.simps [simp del]

definition parse_data_row :: "pqwire_ctx \<Rightarrow> bytes \<Rightarrow> pqwire_ctx option" where
  "parse_data_row c body =
     (if length body < 2 then Some c
      else do {
        n \<leftarrow> rd16_be body 0;
        (i, r, c) \<leftarrow> data_row_cols body (min (unat n) PQWIRE_MAX_ROW_COLUMNS) 0 2 zero_data_row c;
        enqueue_event c (mk_event PQ_EVENT_DATA_ROW (PDataRow (r\<lparr>dr_n_columns := i\<rparr>)))
      })"

subsection \<open>CommandComplete, NotificationResponse\<close>

definition parse_command_complete :: "pqwire_ctx \<Rightarrow> bytes \<Rightarrow> pqwire_ctx option" where
  "parse_command_complete c body = do {
     r \<leftarrow> read_cstr_at body 0;
     let c = c\<lparr>tag_scratch := (case r of None \<Rightarrow> [] | Some (tag, _) \<Rightarrow> copy_cstr 64 (Some tag))\<rparr>;
     c \<leftarrow> enqueue_event c (mk_event PQ_EVENT_COMMAND_COMPLETE (PCommandComplete TagScratch));
     Some (c\<lparr>proto_state := PROTO_STATE_READY\<rparr>)
   }"

text \<open>The payload is copied up to its NUL, at most \<open>PQWIRE_NOTIFY_PAYLOAD_MAX\<close> bytes.\<close>

definition decode_notification :: "bytes \<Rightarrow> pq_notification option option" where
  "decode_notification body =
     (if length body < 4 then Some None
      else do {
        pid \<leftarrow> rd32_be body 0;
        r \<leftarrow> read_cstr_at body 4;
        case r of None \<Rightarrow> Some None
        | Some (channel, c1) \<Rightarrow> do {
            r \<leftarrow> read_cstr_at body (4 + c1);
            let payload = (case r of None \<Rightarrow> [] | Some (s, _) \<Rightarrow> s);
            let plen = min (length payload) PQWIRE_NOTIFY_PAYLOAD_MAX;
            Some (Some (zero_notification\<lparr>nt_pid := pid, nt_channel := copy_cstr 64 (Some channel),
                          nt_payload := take plen payload, nt_payload_len := plen\<rparr>))
          }
      })"

definition parse_notification_response :: "pqwire_ctx \<Rightarrow> bytes \<Rightarrow> pqwire_ctx option" where
  "parse_notification_response c body = do {
     r \<leftarrow> decode_notification body;
     case r of None \<Rightarrow> Some c
     | Some n \<Rightarrow> enqueue_event c (mk_event PQ_EVENT_NOTIFICATION (PNotification n))
   }"

section \<open>Dispatch\<close>

definition handle_frontend :: "pqwire_ctx \<Rightarrow> byte \<Rightarrow> nat \<Rightarrow> bytes \<Rightarrow> pqwire_ctx option" where
  "handle_frontend c type base body =
     (if type = ascii (CHR ''Q'') then parse_query_msg c body
      else if type = ascii (CHR ''P'') then parse_parse_msg c body
      else if type = ascii (CHR ''B'') then parse_bind_msg c base body
      else if type = ascii (CHR ''D'') then parse_describe_msg c body
      else if type = ascii (CHR ''E'') then parse_execute_msg c body
      else if type = ascii (CHR ''C'') then parse_close_msg c body
      else if type = ascii (CHR ''S'') then enqueue_event c (plain_event PQ_EVENT_SYNC)
      else if type = ascii (CHR ''H'') then enqueue_event c (plain_event PQ_EVENT_FLUSH)
      else if type = ascii (CHR ''X'') then enqueue_event c (plain_event PQ_EVENT_TERMINATE)
      else Some c)"

definition handle_authentication :: "pqwire_ctx \<Rightarrow> bytes \<Rightarrow> pqwire_ctx option" where
  "handle_authentication c body =
     (if length body \<ge> 4
      then do {
        v \<leftarrow> rd32_be body 0;
        if v = 0
        then do {
          c \<leftarrow> enqueue_event c (plain_event PQ_EVENT_AUTHENTICATION_OK);
          Some (c\<lparr>auth_state := AUTH_STATE_DONE\<rparr>)
        }
        else Some c
      }
      else Some c)"

definition handle_ready_for_query :: "pqwire_ctx \<Rightarrow> pqwire_ctx option" where
  "handle_ready_for_query c = do {
     c \<leftarrow> enqueue_event c (plain_event PQ_EVENT_READY_FOR_QUERY);
     Some (c\<lparr>proto_state := PROTO_STATE_READY\<rparr>)
   }"

definition handle_backend :: "pqwire_ctx \<Rightarrow> byte \<Rightarrow> nat \<Rightarrow> bytes \<Rightarrow> pqwire_ctx option" where
  "handle_backend c type base body =
     (if type = ascii (CHR ''R'') then handle_authentication c body
      else if type = ascii (CHR ''Z'') then handle_ready_for_query c
      else if type = ascii (CHR ''T'') then parse_row_description c body
      else if type = ascii (CHR ''D'') then parse_data_row c body
      else if type = ascii (CHR ''C'') then parse_command_complete c body
      else if type = ascii (CHR ''E'') then parse_error_response c body
      else if type = ascii (CHR ''1'') then enqueue_event c (plain_event PQ_EVENT_PARSE_COMPLETE)
      else if type = ascii (CHR ''2'') then enqueue_event c (plain_event PQ_EVENT_BIND_COMPLETE)
      else if type = ascii (CHR ''3'') then enqueue_event c (plain_event PQ_EVENT_CLOSE_COMPLETE)
      else if type = ascii (CHR ''n'') then enqueue_event c (plain_event PQ_EVENT_NO_DATA)
      else if type = ascii (CHR ''s'') then enqueue_event c (plain_event PQ_EVENT_PORTAL_SUSPENDED)
      else if type = ascii (CHR ''S'')
      then enqueue_event c (mk_event PQ_EVENT_PARAMETER_STATUS
             (PRaw (body_ptr c base 0) (length body)))
      else if type = ascii (CHR ''N'') then enqueue_event c (plain_event PQ_EVENT_NOTICE_RESPONSE)
      else if type = ascii (CHR ''A'') then parse_notification_response c body
      else if type = ascii (CHR ''K'') then Some c
      else Some c)"

definition handle_message :: "pqwire_ctx \<Rightarrow> byte \<Rightarrow> nat \<Rightarrow> bytes \<Rightarrow> pqwire_ctx option" where
  "handle_message c type base body =
     (if role c = PQWIRE_ROLE_SERVER then handle_frontend c type base body
      else handle_backend c type base body)"

section \<open>Every parser stays in bounds and keeps the invariant\<close>

text \<open>What no parser touches: the buffers, the configuration and the start-up flag.\<close>

definition parse_frame :: "pqwire_ctx \<Rightarrow> pqwire_ctx \<Rightarrow> bool" where
  "parse_frame c c' \<longleftrightarrow>
     magic c' = magic c \<and> role c' = role c \<and> event_queue_size c' = event_queue_size c \<and>
     max_message_size c' = max_message_size c \<and>
     output_buf c' = output_buf c \<and> output_len c' = output_len c \<and> output_cap c' = output_cap c \<and>
     input_buf c' = input_buf c \<and> input_len c' = input_len c \<and> input_cap c' = input_cap c \<and>
     input_epoch c' = input_epoch c \<and> password c' = password c \<and> use_scram c' = use_scram c \<and>
     scram_ctx c' = scram_ctx c \<and> startup_seen c' = startup_seen c"

lemma parse_frame_refl [simp]: "parse_frame c c"
  by (simp add: parse_frame_def)

lemma parse_frame_trans: "parse_frame a b \<Longrightarrow> parse_frame b c \<Longrightarrow> parse_frame a c"
  by (simp add: parse_frame_def)

lemma ring_parse_frame: "ring_frame c c' \<Longrightarrow> parse_frame c c'"
  by (simp add: parse_frame_def ring_frameD)

definition safe_step :: "pqwire_ctx \<Rightarrow> pqwire_ctx option \<Rightarrow> bool" where
  "safe_step c r \<longleftrightarrow> (\<exists>c'. r = Some c' \<and> wf_ctx c' \<and> parse_frame c c')"

lemma safe_stepI: "wf_ctx c' \<Longrightarrow> parse_frame c c' \<Longrightarrow> safe_step c (Some c')"
  by (simp add: safe_step_def)

lemma safe_step_bind:
  assumes "safe_step c r" "\<And>d. wf_ctx d \<Longrightarrow> parse_frame c d \<Longrightarrow> safe_step d (f d)"
  shows "safe_step c (Option.bind r f)"
  using assms by (fastforce simp: safe_step_def intro: parse_frame_trans)

lemma safe_step_from:
  "safe_step d r \<Longrightarrow> parse_frame c d \<Longrightarrow> safe_step c r"
  by (auto simp: safe_step_def intro: parse_frame_trans)

lemma set_keep_last: "set (keep_last n xs) \<subseteq> set xs"
  by (auto simp: keep_last_def dest: in_set_dropD)

lemma safe_enqueue:
  assumes "wf_ctx c" "wf_event ev"
  shows "safe_step c (enqueue_event c ev)"
proof -
  obtain c' where c': "enqueue_event c ev = Some c'" "wf_ring c'" "ring_frame c c'"
    "ring_items c' = keep_last (event_queue_size c) (ring_items c @ [ev])"
    using enqueue_event_ok [of c ev] assms(1) by (auto simp: wf_ctx_def)
  have "wf_ctx c'"
    using assms c' set_keep_last [of "event_queue_size c" "ring_items c @ [ev]"]
    by (auto simp: wf_ctx_def wf_output_def wf_input_def wf_scratch_def ring_frameD)
  with c' show ?thesis by (simp add: safe_step_def ring_parse_frame)
qed

lemma wf_mk_event [simp]: "wf_event (mk_event t p) = wf_payload p"
  by (simp add: wf_event_def mk_event_def)

lemma wf_ctx_same:
  \<comment> \<open>updates of the phase and of the string scratch buffers keep the invariant\<close>
  assumes "wf_ctx c"
  shows "wf_ctx (c\<lparr>proto_state := p\<rparr>)" "wf_ctx (c\<lparr>auth_state := a\<rparr>)" "wf_ctx (c\<lparr>startup_seen := b\<rparr>)"
    "fits 128 s \<Longrightarrow> wf_ctx (c\<lparr>user_scratch := s\<rparr>)" "fits 128 s \<Longrightarrow> wf_ctx (c\<lparr>db_scratch := s\<rparr>)"
    "fits PQWIRE_MAX_QUERY_LEN s \<Longrightarrow> wf_ctx (c\<lparr>sql_scratch := s\<rparr>)"
    "fits 64 s \<Longrightarrow> wf_ctx (c\<lparr>tag_scratch := s\<rparr>)"
  using assms by (auto simp: wf_defs ring_items_def)

lemma parse_frame_same [simp]:
  "parse_frame c (c\<lparr>proto_state := p\<rparr>)" "parse_frame c (c\<lparr>auth_state := a\<rparr>)"
  "parse_frame c (c\<lparr>user_scratch := s\<rparr>)" "parse_frame c (c\<lparr>db_scratch := s\<rparr>)"
  "parse_frame c (c\<lparr>sql_scratch := s\<rparr>)" "parse_frame c (c\<lparr>tag_scratch := s\<rparr>)"
  by (simp_all add: parse_frame_def)

lemma read_cstr_at_cases:
  assumes "off \<le> length b"
  obtains (null) "read_cstr_at b off = Some None"
    | (str) s n where "read_cstr_at b off = Some (Some (s, n))" "is_cstr s" "off + n \<le> length b"
        "n = Suc (length s)"
proof (cases "read_cstr (drop off b)")
  case None
  then show thesis using null assms by (simp add: read_cstr_at_defined)
next
  case (Some p)
  then obtain s n where "read_cstr_at b off = Some (Some (s, n))"
    using assms by (cases p) (simp add: read_cstr_at_defined)
  then show thesis using str read_cstr_at_SomeD by blast
qed

lemma safe_unchanged [simp]: "wf_ctx c \<Longrightarrow> safe_step c (Some c)"
  by (simp add: safe_stepI)

lemma safe_decode:
  assumes "wf_ctx c" "\<exists>r. m = Some r \<and> (\<forall>x. r = Some x \<longrightarrow> wf_payload (P x))"
  shows "safe_step c (Option.bind m (case_option (Some c) (\<lambda>x. enqueue_event c (mk_event t (P x)))))"
  using assms by (auto split: option.split intro!: safe_enqueue)

lemma startup_params_safe:
  "wf_ctx c \<Longrightarrow> off \<le> length body \<Longrightarrow> safe_step c (startup_params body off c)"
proof (induction body off c rule: startup_params.induct)
  case (1 body off c)
  show ?case
  proof (cases "off + 1 < length body")
    case True
    from 1(3) show ?thesis
    proof (cases rule: read_cstr_at_cases)
      case null
      with 1 True show ?thesis by (subst startup_params.simps) simp
    next
      case k: (str key c1)
      from k(3) show ?thesis
      proof (cases rule: read_cstr_at_cases)
        case null
        with 1 True k(1) show ?thesis by (subst startup_params.simps) simp
      next
        case v: (str val c2)
        let ?d = "if key = text_of ''user'' then c\<lparr>user_scratch := copy_cstr 128 (Some val)\<rparr>
                  else if key = text_of ''database'' then c\<lparr>db_scratch := copy_cstr 128 (Some val)\<rparr>
                  else c"
        have d: "wf_ctx ?d" "parse_frame c ?d"
          using 1(2) v(2) by (simp_all add: wf_ctx_same)
        have "safe_step c (startup_params body (off + c1 + c2) ?d)" if "\<not> c1 \<le> 1"
          using 1(1) [OF True k(1) refl refl that v(1) refl refl d(1) v(3)] d(2)
          by (rule safe_step_from)
        with 1(2) True k(1) v(1) show ?thesis by (subst startup_params.simps) simp
      qed
    qed
  qed (use 1 in \<open>simp add: startup_params.simps\<close>)
qed

lemma parse_startup_body_safe:
  assumes "wf_ctx c" "4 \<le> length body"
  shows "\<exists>c'. parse_startup_body c body = Some c' \<and> wf_ctx c' \<and> startup_seen c' \<and>
           parse_frame (c\<lparr>startup_seen := True\<rparr>) c'"
proof -
  let ?c = "c\<lparr>user_scratch := [], db_scratch := []\<rparr>"
  have "wf_ctx ?c" using assms(1) by (simp add: wf_ctx_same)
  then obtain d where d: "startup_params body 4 ?c = Some d" "wf_ctx d" "parse_frame ?c d"
    using startup_params_safe [of ?c 4 body] assms(2) by (auto simp: safe_step_def)
  obtain e where e: "enqueue_event d (mk_event PQ_EVENT_STARTUP (PStartup UserScratch DbScratch)) = Some e"
    "wf_ctx e" "parse_frame d e"
    using safe_enqueue [OF d(2), of "mk_event PQ_EVENT_STARTUP (PStartup UserScratch DbScratch)"]
    by (auto simp: safe_step_def)
  show ?thesis
    using d e by (simp add: parse_startup_body_def Let_def wf_ctx_same parse_frame_def)
qed

lemma decode_parse_safe:
  "\<exists>r. decode_parse body = Some r \<and> (\<forall>p. r = Some p \<longrightarrow> wf_parse p)"
  using le0 [of "length body"]
proof (cases rule: read_cstr_at_cases)
  case null
  then show ?thesis by (simp add: decode_parse_def)
next
  case name: (str s1 c1)
  then have "c1 \<le> length body" by simp
  then show ?thesis
  proof (cases rule: read_cstr_at_cases)
    case null
    with name show ?thesis by (simp add: decode_parse_def)
  next
    case query: (str s2 c2)
    let ?p = "zero_parse\<lparr>pa_statement := copy_cstr PQWIRE_MAX_STMT_NAME (Some s1),
                         pa_query := copy_cstr PQWIRE_MAX_QUERY_LEN (Some s2)\<rparr>"
    have p: "wf_parse ?p" "length (pa_param_type_oids ?p) = PQWIRE_MAX_PARAM_TYPES"
      using name(2) query(2) by (simp_all add: wf_parse_def limit_defs zero_parse_def)
    show ?thesis
    proof (cases "c1 + c2 + 2 \<le> length body")
      case False
      with name query p show ?thesis by (simp add: decode_parse_def Let_def)
    next
      case True
      then obtain n where n: "rd16_be body (c1 + c2) = Some n" using be16.dec_defined by blast
      let ?n = "min (unat n) PQWIRE_MAX_PARAM_TYPES"
      obtain oids off where "read_array rd32_be 4 0 ?n body (c1 + c2 + 2) (pa_param_type_oids ?p) =
          Some (oids, off)" "length oids = PQWIRE_MAX_PARAM_TYPES"
        using be32.read_array_defined [of ?n "pa_param_type_oids ?p" "c1 + c2 + 2" body 0] True p(2)
        by auto
      with True name query n p show ?thesis
        by (auto simp: decode_parse_def Let_def wf_parse_def)
    qed
  qed
qed

lemma parse_parse_msg_safe: "wf_ctx c \<Longrightarrow> safe_step c (parse_parse_msg c body)"
  unfolding parse_parse_msg_def by (rule safe_decode) (use decode_parse_safe in auto)

lemma param_format_safe:
  "n \<le> length fmts \<Longrightarrow> \<exists>f. param_format n fmts i = Some f"
  by (auto simp: param_format_def peek_def)

lemma bind_params_safe:
  "n \<le> length ps \<Longrightarrow> nf \<le> length fmts \<Longrightarrow> off \<le> length body \<Longrightarrow>
   \<exists>r. bind_params bp nf fmts body n i off ps = Some r \<and>
       (\<forall>ps' off'. r = Some (ps', off') \<longrightarrow> length ps' = length ps \<and> off' \<le> length body)"
proof (induction "n - i" arbitrary: i off ps)
  case 0
  then show ?case by (subst bind_params.simps) simp
next
  case (Suc k)
  show ?case
  proof (cases "off + 4 \<le> length body")
    case True
    then obtain plen where plen: "rd32_be body off = Some plen" using be32.dec_defined by blast
    obtain f where f: "param_format nf fmts i = Some f"
      using param_format_safe Suc.prems(2) by blast
    let ?off = "if sint plen < 0 then off + 4 else off + 4 + unat plen"
    let ?v = "\<lparr>pv_length = plen, pv_data = (if sint plen < 0 then NullPtr else bp (off + 4)), pv_format = f\<rparr>"
    have i: "i < n" "i < length ps" using Suc by auto
    show ?thesis
    proof (cases "sint plen \<ge> 0 \<and> off + 4 + unat plen > length body")
      case True
      with i plen \<open>off + 4 \<le> length body\<close> show ?thesis by (subst bind_params.simps) simp
    next
      case False
      have "\<exists>r. bind_params bp nf fmts body n (Suc i) ?off (ps[i := ?v]) = Some r \<and>
        (\<forall>ps' off'. r = Some (ps', off') \<longrightarrow> length ps' = length (ps[i := ?v]) \<and> off' \<le> length body)"
        by (rule Suc.hyps(1)) (use Suc False True in auto)
      moreover have "bind_params bp nf fmts body n i off ps =
          bind_params bp nf fmts body n (Suc i) ?off (ps[i := ?v])"
        using i plen f True False by (subst bind_params.simps) (auto simp: Let_def)
      ultimately show ?thesis by simp
    qed
  qed (use Suc in \<open>simp add: bind_params.simps\<close>)
qed

text \<open>A counted run of 16-bit fields: the count, then the array the parsers fill.\<close>

lemma counted_array:
  assumes "off + 2 \<le> length body" "length arr = PQWIRE_MAX_BIND_PARAMS"
  obtains n fs off' where "rd16_be body off = Some n"
    "read_array rd16_be 2 0 (min (unat n) PQWIRE_MAX_BIND_PARAMS) body (off + 2) arr = Some (fs, off')"
    "length fs = PQWIRE_MAX_BIND_PARAMS" "off' \<le> length body"
proof -
  obtain n where n: "rd16_be body off = Some n" using be16.dec_defined assms(1) by blast
  show thesis
    using be16.read_array_defined [of "min (unat n) PQWIRE_MAX_BIND_PARAMS" arr "off + 2" body 0]
      n assms that by auto
qed

lemma wf_bind_names:
  assumes "is_cstr s1" "is_cstr s2"
  shows "wf_bind (zero_bind\<lparr>bi_raw_body := d, bi_raw_body_len := n,
     bi_portal := copy_cstr PQWIRE_MAX_PORTAL_NAME (Some s1),
     bi_statement := copy_cstr PQWIRE_MAX_STMT_NAME (Some s2)\<rparr>)"
  using assms by (simp add: wf_bind_def limit_defs zero_bind_def)

text \<open>A decoder that returns, and returns a well-formed Bind if any.\<close>

definition bind_decoded :: "pq_bind option option \<Rightarrow> bool" where
  "bind_decoded r \<longleftrightarrow> (\<exists>x. r = Some x \<and> (\<forall>b. x = Some b \<longrightarrow> wf_bind b))"

lemma bind_decoded_simps [simp]:
  "bind_decoded (Some None)" "bind_decoded (Some (Some b)) = wf_bind b"
  by (simp_all add: bind_decoded_def)

lemma decode_bind_results_safe:
  assumes "wf_bind b" shows "bind_decoded (decode_bind_results body b off)"
proof (cases "off + 2 \<le> length body")
  case True
  have "length (bi_result_formats b) = PQWIRE_MAX_BIND_PARAMS" using assms by (simp add: wf_bind_def)
  from counted_array [OF True this] obtain n rf o' where
    "rd16_be body off = Some n"
    "read_array rd16_be 2 0 (min (unat n) PQWIRE_MAX_BIND_PARAMS) body (off + 2) (bi_result_formats b) = Some (rf, o')"
    "length rf = PQWIRE_MAX_BIND_PARAMS" by blast
  with True assms show ?thesis by (simp add: decode_bind_results_def Let_def wf_bind_def)
qed (use assms in \<open>simp add: decode_bind_results_def\<close>)

lemma decode_bind_params_safe:
  assumes "wf_bind b" shows "bind_decoded (decode_bind_params bp body b off)"
proof (cases "off + 2 \<le> length body")
  case True
  then obtain n where n: "rd16_be body off = Some n" using be16.dec_defined by blast
  let ?np = "min (unat n) PQWIRE_MAX_BIND_PARAMS"
  obtain r where r: "bind_params bp (bi_n_formats b) (bi_formats b) body ?np 0 (off + 2) (bi_params b) = Some r"
    "\<And>ps off. r = Some (ps, off) \<Longrightarrow> length ps = PQWIRE_MAX_BIND_PARAMS"
    using bind_params_safe [of ?np "bi_params b" "bi_n_formats b" "bi_formats b" "off + 2" body bp 0]
      assms True by (auto simp: wf_bind_def)
  have "bind_decoded (decode_bind_results body (b\<lparr>bi_n_params := ?np, bi_params := ps\<rparr>) o')"
    if "r = Some (ps, o')" for ps o'
    by (rule decode_bind_results_safe) (use assms r(2) [OF that] in \<open>simp add: wf_bind_def\<close>)
  with True n r(1) show ?thesis
    by (auto simp: decode_bind_params_def Let_def split: option.split)
qed (simp add: decode_bind_params_def)

lemma decode_bind_formats_safe:
  assumes "wf_bind b" shows "bind_decoded (decode_bind_formats bp body b off)"
proof (cases "off + 2 \<le> length body")
  case True
  have "length (bi_formats b) = PQWIRE_MAX_BIND_PARAMS" using assms by (simp add: wf_bind_def)
  from counted_array [OF True this] obtain n fs o' where f:
    "rd16_be body off = Some n"
    "read_array rd16_be 2 0 (min (unat n) PQWIRE_MAX_BIND_PARAMS) body (off + 2) (bi_formats b) = Some (fs, o')"
    "length fs = PQWIRE_MAX_BIND_PARAMS" by blast
  have "wf_bind (b\<lparr>bi_n_formats := min (unat n) PQWIRE_MAX_BIND_PARAMS, bi_formats := fs\<rparr>)"
    using assms f(3) by (simp add: wf_bind_def)
  from decode_bind_params_safe [OF this] True f show ?thesis
    by (simp add: decode_bind_formats_def Let_def)
qed (simp add: decode_bind_formats_def)

lemma decode_bind_safe: "bind_decoded (decode_bind bp body)"
  using le0 [of "length body"]
proof (cases rule: read_cstr_at_cases)
  case portal: (str s1 c1)
  then have "c1 \<le> length body" by simp
  then show ?thesis
  proof (cases rule: read_cstr_at_cases)
    case stmt: (str s2 c2)
    show ?thesis
      using portal(1) stmt(1) decode_bind_formats_safe [OF wf_bind_names [OF portal(2) stmt(2)]]
      by (simp add: decode_bind_def)
  qed (use portal in \<open>simp add: decode_bind_def\<close>)
qed (simp add: decode_bind_def)

lemma parse_bind_msg_safe: "wf_ctx c \<Longrightarrow> safe_step c (parse_bind_msg c base body)"
  unfolding parse_bind_msg_def by (rule safe_decode) (use decode_bind_safe in \<open>auto simp: bind_decoded_def\<close>)

lemma decode_target_name_safe:
  "\<exists>r. decode_target_name body = Some r \<and> (\<forall>t n. r = Some (t, n) \<longrightarrow> fits PQWIRE_MAX_STMT_NAME n)"
proof (cases "length body < 1")
  case False
  then have "1 \<le> length body" by linarith
  then show ?thesis
    by (cases rule: read_cstr_at_cases) (use False in \<open>auto simp: decode_target_name_def limit_defs\<close>)
qed (simp add: decode_target_name_def)

lemma parse_describe_msg_safe: "wf_ctx c \<Longrightarrow> safe_step c (parse_describe_msg c body)"
  using decode_target_name_safe [of body]
  by (auto simp: parse_describe_msg_def split: option.split intro!: safe_enqueue)

lemma parse_close_msg_safe: "wf_ctx c \<Longrightarrow> safe_step c (parse_close_msg c body)"
  using decode_target_name_safe [of body]
  by (auto simp: parse_close_msg_def split: option.split intro!: safe_enqueue)

lemma decode_execute_safe:
  "\<exists>r. decode_execute body = Some r \<and> (\<forall>x. r = Some x \<longrightarrow> fits PQWIRE_MAX_PORTAL_NAME (ex_portal x))"
  using le0 [of "length body"]
proof (cases rule: read_cstr_at_cases)
  case (str s n)
  then show ?thesis using be32.dec_defined [of n body]
    by (auto simp: decode_execute_def Let_def limit_defs)
qed (simp add: decode_execute_def)

lemma parse_execute_msg_safe: "wf_ctx c \<Longrightarrow> safe_step c (parse_execute_msg c body)"
  unfolding parse_execute_msg_def by (rule safe_decode) (use decode_execute_safe in auto)

text \<open>A string argument that may be missing, as the scratch buffers receive it.\<close>

lemma scratch_string:
  assumes "0 < n" "off \<le> length body"
  obtains r where "read_cstr_at body off = Some r"
    "fits n (case r of None \<Rightarrow> [] | Some (s, c) \<Rightarrow> copy_cstr n (Some s))"
  using assms(2)
proof (cases rule: read_cstr_at_cases)
  case null
  then show thesis using that assms(1) by fastforce
next
  case (str s c)
  then show thesis using that [of "Some (s, c)"] assms(1) by simp
qed

lemma safe_step_phase:
  "safe_step c r \<Longrightarrow> safe_step c (Option.bind r (\<lambda>c. Some (c\<lparr>proto_state := p\<rparr>)))"
  "safe_step c r \<Longrightarrow> safe_step c (Option.bind r (\<lambda>c. Some (c\<lparr>auth_state := a\<rparr>)))"
  by (auto intro!: safe_step_bind safe_stepI wf_ctx_same)

lemma parse_query_msg_safe:
  assumes "wf_ctx c" shows "safe_step c (parse_query_msg c body)"
proof -
  obtain r where r: "read_cstr_at body 0 = Some r" "fits PQWIRE_MAX_QUERY_LEN
    (case r of None \<Rightarrow> [] | Some (s, c) \<Rightarrow> copy_cstr PQWIRE_MAX_QUERY_LEN (Some s))"
    using scratch_string [of PQWIRE_MAX_QUERY_LEN 0 body] by (auto simp: limit_defs)
  let ?c = "c\<lparr>sql_scratch := (case r of None \<Rightarrow> [] | Some (s, c) \<Rightarrow> copy_cstr PQWIRE_MAX_QUERY_LEN (Some s))\<rparr>"
  have "safe_step ?c (enqueue_event ?c (mk_event PQ_EVENT_QUERY (PQuery SqlScratch)))"
    using assms r(2) by (intro safe_enqueue wf_ctx_same) simp_all
  then have "safe_step c (enqueue_event ?c (mk_event PQ_EVENT_QUERY (PQuery SqlScratch)))"
    by (rule safe_step_from) simp
  from safe_step_phase(1) [OF this] show ?thesis by (simp add: parse_query_msg_def r(1) Let_def)
qed

lemma parse_command_complete_safe:
  assumes "wf_ctx c" shows "safe_step c (parse_command_complete c body)"
proof -
  obtain r where r: "read_cstr_at body 0 = Some r"
    "fits 64 (case r of None \<Rightarrow> [] | Some (s, c) \<Rightarrow> copy_cstr 64 (Some s))"
    using scratch_string [of 64 0 body] by auto
  let ?c = "c\<lparr>tag_scratch := (case r of None \<Rightarrow> [] | Some (s, c) \<Rightarrow> copy_cstr 64 (Some s))\<rparr>"
  have "safe_step ?c (enqueue_event ?c (mk_event PQ_EVENT_COMMAND_COMPLETE (PCommandComplete TagScratch)))"
    using assms r(2) by (intro safe_enqueue wf_ctx_same) simp_all
  then have "safe_step c (enqueue_event ?c (mk_event PQ_EVENT_COMMAND_COMPLETE (PCommandComplete TagScratch)))"
    by (rule safe_step_from) simp
  from safe_step_phase(1) [OF this] show ?thesis
    by (simp add: parse_command_complete_def r(1) Let_def)
qed

lemma wf_error_field: "wf_error e \<Longrightarrow> is_cstr val \<Longrightarrow> wf_error (error_field e f val)"
  using atoi_range [of val] by (simp add: wf_error_def error_field_def)

lemma error_loop_safe:
  "wf_error e \<Longrightarrow> off \<le> length body \<Longrightarrow> \<exists>e'. error_loop body off e = Some e' \<and> wf_error e'"
proof (induction body off e rule: error_loop.induct)
  case (1 body off e)
  show ?case
  proof (cases "off < length body \<and> body ! off \<noteq> 0")
    case True
    then have "off + 1 \<le> length body" by simp
    then show ?thesis
    proof (cases rule: read_cstr_at_cases)
      case null
      with True 1(2) show ?thesis by (subst error_loop.simps) simp
    next
      case (str val n)
      have "\<exists>e'. error_loop body (off + 1 + n) (error_field e (body ! off) val) = Some e' \<and> wf_error e'"
        by (rule 1(1) [OF _ _ _ str(1) refl refl])
          (use True 1(2) str in \<open>auto intro: wf_error_field\<close>)
      with True str(1) show ?thesis by (subst error_loop.simps) simp
    qed
  qed (use 1 in \<open>auto simp: error_loop.simps\<close>)
qed

lemma parse_error_response_safe: "wf_ctx c \<Longrightarrow> safe_step c (parse_error_response c body)"
  using error_loop_safe [of zero_error 0 body]
  by (auto simp: parse_error_response_def intro!: safe_enqueue)

lemma decode_notification_safe:
  "\<exists>r. decode_notification body = Some r \<and> (\<forall>n. r = Some n \<longrightarrow> wf_notification n)"
proof (cases "length body < 4")
  case False
  then have b: "4 \<le> length body" by simp
  then obtain pid where pid: "rd32_be body 0 = Some pid" using be32.dec_defined [of 0 body] by auto
  from b show ?thesis
  proof (cases rule: read_cstr_at_cases)
    case null
    with b pid show ?thesis by (simp add: decode_notification_def)
  next
    case ch: (str s n)
    obtain r where r: "read_cstr_at body (4 + n) = Some r" "\<And>s c. r = Some (s, c) \<Longrightarrow> is_cstr s"
      using ch(3) by (cases rule: read_cstr_at_cases) auto
    then have "is_cstr (case r of None \<Rightarrow> [] | Some (s, c) \<Rightarrow> s)" by (auto split: option.split)
    with b pid ch r(1) show ?thesis
      by (auto simp: decode_notification_def Let_def wf_notification_def fits_def limit_defs
          intro: length_copy_cstr is_cstr_copy_cstr)
  qed
qed (simp add: decode_notification_def)

lemma parse_notification_response_safe:
  "wf_ctx c \<Longrightarrow> safe_step c (parse_notification_response c body)"
  unfolding parse_notification_response_def
  by (rule safe_decode) (use decode_notification_safe in auto)

lemma wf_ctx_columns:
  assumes "wf_ctx c" "is_cstr s" "i < PQWIRE_MAX_ROW_COLUMNS"
  shows "wf_ctx (c\<lparr>col_name_scratch := (col_name_scratch c)[i := copy_cstr 64 (Some s)]\<rparr>)"
    "wf_ctx (c\<lparr>col_scratch := (col_scratch c)[i := d]\<rparr>)"
  using assms set_update_subset_insert [of "col_name_scratch c" i "copy_cstr 64 (Some s)"]
  by (auto simp: wf_defs ring_items_def)

lemma row_desc_cols_safe:
  "wf_ctx c \<Longrightarrow> off \<le> length body \<Longrightarrow> i \<le> n \<Longrightarrow> n \<le> PQWIRE_MAX_ROW_COLUMNS \<Longrightarrow>
   \<exists>i' c'. row_desc_cols body n i off c = Some (i', c') \<and> i' \<le> n \<and> wf_ctx c' \<and> parse_frame c c'"
proof (induction "n - i" arbitrary: i off c)
  case 0
  then show ?case by (subst row_desc_cols.simps) simp
next
  case (Suc k)
  then have i: "i < n" "i < PQWIRE_MAX_ROW_COLUMNS" and k: "k = n - Suc i" by auto
  from Suc.prems(1) have l: "length (col_name_scratch c) = PQWIRE_MAX_ROW_COLUMNS"
    "length (col_scratch c) = PQWIRE_MAX_ROW_COLUMNS" by (auto simp: wf_defs)
  from Suc.prems(2) show ?case
  proof (cases rule: read_cstr_at_cases)
    case null
    with Suc.prems i show ?thesis by (subst row_desc_cols.simps) simp
  next
    case (str s m)
    let ?c = "c\<lparr>col_name_scratch := (col_name_scratch c)[i := copy_cstr 64 (Some s)]\<rparr>"
    have c: "wf_ctx ?c" "parse_frame c ?c"
      using wf_ctx_columns(1) [OF Suc.prems(1) str(2) i(2)] by (simp_all add: parse_frame_def)
    show ?thesis
    proof (cases "off + m + 18 \<le> length body")
      case True
      then obtain oid fmt where d: "rd32_be body (off + m + 6) = Some oid"
        "rd16_be body (off + m + 16) = Some fmt"
        using be32.dec_defined [of "off + m + 6" body] be16.dec_defined [of "off + m + 16" body]
        by auto
      let ?d = "?c\<lparr>col_scratch := (col_scratch c)[i := \<lparr>cd_name = Some i, cd_oid = oid, cd_format = fmt\<rparr>]\<rparr>"
      have w: "wf_ctx ?d" "parse_frame c ?d"
        using wf_ctx_columns(2) [OF c(1) str(2) i(2)] by (simp_all add: parse_frame_def)
      obtain i' c' where "row_desc_cols body n (Suc i) (off + m + 18) ?d = Some (i', c')"
        "i' \<le> n" "wf_ctx c'" "parse_frame ?d c'"
        using Suc.hyps(1) [OF k, of ?d "off + m + 18"] Suc.prems(4) w(1) True i by auto
      with True Suc.prems i l str d w show ?thesis
        by (subst row_desc_cols.simps) (auto simp: Let_def intro: parse_frame_trans)
    qed (use Suc.prems i l str c in \<open>subst row_desc_cols.simps, simp add: Let_def\<close>)
  qed
qed

lemma parse_row_description_safe:
  assumes "wf_ctx c" shows "safe_step c (parse_row_description c body)"
proof (cases "length body < 2")
  case False
  then obtain n where n: "rd16_be body 0 = Some n" using be16.dec_defined [of 0 body] by auto
  let ?n = "min (unat n) PQWIRE_MAX_ROW_COLUMNS"
  obtain i d where d: "row_desc_cols body ?n 0 2 c = Some (i, d)" "i \<le> ?n" "wf_ctx d" "parse_frame c d"
    using row_desc_cols_safe [of c 2 body 0 ?n] assms False by auto
  have "safe_step d (enqueue_event d (mk_event PQ_EVENT_ROW_DESCRIPTION (PRowDesc i)))"
    by (rule safe_enqueue) (use d in simp_all)
  with d(4) False n d(1) show ?thesis
    by (auto simp: parse_row_description_def intro: safe_step_from)
qed (use assms in \<open>simp add: parse_row_description_def\<close>)

lemma set_column_safe:
  "wf_data_row r \<Longrightarrow> i < PQWIRE_MAX_ROW_COLUMNS \<Longrightarrow> \<exists>r'. set_column r i d n = Some r' \<and> wf_data_row r'"
  by (simp add: set_column_def wf_data_row_def)

lemma take_column_safe:
  assumes "wf_ctx c" "wf_data_row r" "i < PQWIRE_MAX_ROW_COLUMNS" "off + need \<le> length body"
  shows "\<exists>r' c'. take_column body off need i r c = Some (r', c') \<and> wf_data_row r' \<and> wf_ctx c' \<and>
           parse_frame c c'"
proof (cases "row_arena_used c + need > PQWIRE_ROW_ARENA")
  case True
  then show ?thesis using assms set_column_safe [OF assms(2,3), of NullPtr 0]
    by (auto simp: take_column_def)
next
  case False
  obtain r' where "set_column r i (Arena (row_arena_used c)) need = Some r'" "wf_data_row r'"
    using set_column_safe [OF assms(2,3)] by blast
  with False assms(1,4) show ?thesis
    by (auto simp: take_column_def arena_write_def parse_frame_def wf_defs ring_items_def)
qed

lemma data_row_cols_safe:
  "wf_ctx c \<Longrightarrow> wf_data_row r \<Longrightarrow> i \<le> n \<Longrightarrow> n \<le> PQWIRE_MAX_ROW_COLUMNS \<Longrightarrow>
   \<exists>i' r' c'. data_row_cols body n i off r c = Some (i', r', c') \<and> i' \<le> n \<and> wf_data_row r' \<and>
     wf_ctx c' \<and> parse_frame c c'"
proof (induction "n - i" arbitrary: i off r c)
  case 0
  then show ?case by (subst data_row_cols.simps) simp
next
  case (Suc k)
  then have i: "i < n" "i < PQWIRE_MAX_ROW_COLUMNS" and k: "k = n - Suc i" by auto
  show ?case
  proof (cases "off + 4 \<le> length body")
    case True
    then obtain plen where plen: "rd32_be body off = Some plen" using be32.dec_defined by blast
    consider (null) "sint plen < 0" | (short) "\<not> sint plen < 0" "off + 4 + unat plen > length body"
      | (col) "\<not> sint plen < 0" "off + 4 + unat plen \<le> length body" by linarith
    then show ?thesis
    proof cases
      case null
      obtain r1 where r1: "set_column r i NullPtr 0 = Some r1" "wf_data_row r1"
        using set_column_safe Suc.prems(2) i(2) by blast
      show ?thesis
        using Suc.hyps(1) [OF k, of c r1 "off + 4"] Suc.prems i r1 True plen null
        by (subst data_row_cols.simps) simp
    next
      case short
      then show ?thesis using Suc.prems i True plen by (subst data_row_cols.simps) simp
    next
      case col
      obtain r1 c1 where t: "take_column body (off + 4) (unat plen) i r c = Some (r1, c1)"
        "wf_data_row r1" "wf_ctx c1" "parse_frame c c1"
        using take_column_safe [OF Suc.prems(1,2) i(2) col(2)] by blast
      show ?thesis
        using Suc.hyps(1) [OF k, of c1 r1 "off + 4 + unat plen"] Suc.prems(4) i t True plen col
        by (subst data_row_cols.simps) (auto intro: parse_frame_trans)
    qed
  qed (use Suc in \<open>simp add: data_row_cols.simps\<close>)
qed

lemma parse_data_row_safe:
  assumes "wf_ctx c" shows "safe_step c (parse_data_row c body)"
proof (cases "length body < 2")
  case False
  then obtain n where n: "rd16_be body 0 = Some n" using be16.dec_defined [of 0 body] by auto
  let ?n = "min (unat n) PQWIRE_MAX_ROW_COLUMNS"
  obtain i r d where d: "data_row_cols body ?n 0 2 zero_data_row c = Some (i, r, d)" "i \<le> ?n"
    "wf_data_row r" "wf_ctx d" "parse_frame c d"
    using data_row_cols_safe [of c zero_data_row 0 ?n body 2] assms by auto
  have "safe_step d (enqueue_event d (mk_event PQ_EVENT_DATA_ROW (PDataRow (r\<lparr>dr_n_columns := i\<rparr>))))"
    by (rule safe_enqueue) (use d in \<open>simp_all add: wf_data_row_def\<close>)
  with d(1,5) False n show ?thesis
    by (auto simp: parse_data_row_def intro: safe_step_from)
qed (use assms in \<open>simp add: parse_data_row_def\<close>)

lemma handle_authentication_safe:
  assumes "wf_ctx c" shows "safe_step c (handle_authentication c body)"
proof (cases "length body \<ge> 4")
  case True
  then obtain v where "rd32_be body 0 = Some v" using be32.dec_defined [of 0 body] by auto
  then show ?thesis
    using True assms safe_step_phase(2) [OF safe_enqueue, of c]
    by (simp add: handle_authentication_def)
qed (use assms in \<open>simp add: handle_authentication_def\<close>)

lemma handle_ready_for_query_safe: "wf_ctx c \<Longrightarrow> safe_step c (handle_ready_for_query c)"
  using safe_step_phase(1) [OF safe_enqueue, of c] by (simp add: handle_ready_for_query_def)

lemmas parsers_safe =
  parse_query_msg_safe parse_parse_msg_safe parse_bind_msg_safe parse_describe_msg_safe
  parse_execute_msg_safe parse_close_msg_safe parse_row_description_safe parse_data_row_safe
  parse_command_complete_safe parse_error_response_safe parse_notification_response_safe
  handle_authentication_safe handle_ready_for_query_safe

lemma handle_message_safe: "wf_ctx c \<Longrightarrow> safe_step c (handle_message c t base body)"
  by (simp add: handle_message_def handle_frontend_def handle_backend_def parsers_safe safe_enqueue)

section \<open>Properties\<close>

text \<open>
  C16. No message can make the parsers leave their objects: for every message type, including
  unknown ones, and every body, \<open>handle_message\<close> on a well-formed context returns a
  well-formed context, and changes neither the buffers nor the configuration.
\<close>

theorem handle_message_total:
  assumes "wf_ctx c"
  shows "\<exists>c'. handle_message c t base body = Some c' \<and> wf_ctx c' \<and> parse_frame c c'"
  using handle_message_safe [OF assms, of t base body] by (simp add: safe_step_def)

theorem handle_message_total_witness:
  "\<exists>c'. handle_message (fresh_ctx PQWIRE_ROLE_SERVER) 66 5 [0, 0, 0, 1, 255] = Some c' \<and> wf_ctx c' \<and>
     parse_frame (fresh_ctx PQWIRE_ROLE_SERVER) c'"
  by (rule handle_message_total) simp

end
