(* ===== verification/Feed.thy ===== *)
theory Feed
  imports Parsers
begin

text \<open>
  \<open>pqwire_feed_input\<close> (\<open>src/src/pqwire.c\<close>, lines 832-910): the input buffer, framing and
  the message loop. One pass of the \<open>for (;;)\<close> loop is \<open>feed_step\<close>; the loop itself is a
  \<open>partial_function\<close>, so that not returning is the value \<open>None\<close>, and \<open>Some None\<close> is a
  fault. That the loop returns and does not fault is proved below for every input shorter
  than 4 GiB, and it is proved not to return for one input of that size.
\<close>

datatype loop_step = Break pqwire_ctx | Continue pqwire_ctx

text \<open>\<open>memmove(input_buf, input_buf + src, n)\<close>.\<close>

definition shift_input :: "pqwire_ctx \<Rightarrow> nat \<Rightarrow> nat \<Rightarrow> pqwire_ctx option" where
  "shift_input c src n = do {
     bs \<leftarrow> mem_read (input_buf c) src n;
     buf \<leftarrow> poke (input_buf c) 0 bs;
     Some (c\<lparr>input_buf := buf\<rparr>)
   }"

text \<open>The StartupMessage branch, lines 855-875.\<close>

definition startup_step :: "pqwire_ctx \<Rightarrow> loop_step option" where
  "startup_step c =
     (if input_len c < 4 then Some (Break c)
      else do {
        mlen \<leftarrow> rd32_be (input_buf c) 0;
        if unat mlen < 8 \<or> unat mlen > max_message_size c
        then do {
          c \<leftarrow> enqueue_event c (plain_event PQ_EVENT_PROTOCOL_ERROR);
          Some (Break (c\<lparr>input_len := 0\<rparr>))
        }
        else if input_len c < unat mlen then Some (Break c)
        else do {
          body \<leftarrow> mem_read (input_buf c) 4 (unat mlen - 4);
          c \<leftarrow> parse_startup_body c body;
          c \<leftarrow> shift_input c (unat mlen) (input_len c - unat mlen);
          Some (Continue (c\<lparr>input_len := input_len c - unat mlen\<rparr>))
        }
      })"

text \<open>
  A typed message whose length field is out of range, lines 886-898. The subtraction
  \<open>ctx->input_len -= (1 + mlen)\<close> adds in 32 bits, where \<open>1 + mlen\<close> can wrap to 0.
\<close>

definition bad_length_step :: "pqwire_ctx \<Rightarrow> u32 \<Rightarrow> loop_step option" where
  "bad_length_step c mlen = do {
     c \<leftarrow> enqueue_event c (plain_event PQ_EVENT_PROTOCOL_ERROR);
     if mlen > 0 \<and> input_len c \<ge> unat mlen + 1
     then do {
       c \<leftarrow> shift_input c (1 + unat mlen) (input_len c - 1 - unat mlen);
       Some (Continue (c\<lparr>input_len := input_len c - unat (1 + mlen)\<rparr>))
     }
     else Some (Continue (c\<lparr>input_len := 0\<rparr>))
   }"

text \<open>The typed-message branch, lines 877-906.\<close>

definition typed_step :: "pqwire_ctx \<Rightarrow> loop_step option" where
  "typed_step c =
     (if input_len c < 5 then Some (Break c)
      else do {
        type \<leftarrow> peek (input_buf c) 0;
        mlen \<leftarrow> rd32_be (input_buf c) 1;
        if unat mlen < 4 \<or> unat mlen > max_message_size c then bad_length_step c mlen
        else do {
          let total = 1 + unat mlen;
          if input_len c < total then Some (Break c)
          else do {
            body \<leftarrow> mem_read (input_buf c) 5 (unat mlen - 4);
            c \<leftarrow> handle_message c type 5 body;
            c \<leftarrow> shift_input c total (input_len c - total);
            Some (Continue (c\<lparr>input_len := input_len c - total\<rparr>))
          }
        }
      })"

definition feed_step :: "pqwire_ctx \<Rightarrow> loop_step option" where
  "feed_step c =
     (if role c = PQWIRE_ROLE_SERVER \<and> \<not> startup_seen c then startup_step c else typed_step c)"

partial_function (option) feed_loop :: "pqwire_ctx \<Rightarrow> pqwire_ctx option option" where
  "feed_loop c =
     (case feed_step c of
        None \<Rightarrow> Some None
      | Some s \<Rightarrow> (case s of Break c' \<Rightarrow> Some (Some c') | Continue c' \<Rightarrow> feed_loop c'))"

text \<open>Room for \<open>len\<close> more bytes (lines 840-848); \<open>None\<close> when \<open>realloc\<close> fails.\<close>

definition reserve_input :: "env \<Rightarrow> pqwire_ctx \<Rightarrow> nat \<Rightarrow> pqwire_ctx option" where
  "reserve_input E c len =
     (if input_len c + len > input_cap c
      then let new_cap = input_len c + len + 1024
           in if alloc_ok E (AllocBytes new_cap)
              then Some (c\<lparr>input_buf := grown_block E (input_buf c) new_cap,
                           input_cap := new_cap, input_epoch := input_epoch c + 1\<rparr>)
              else None
      else Some c)"

text \<open>
  \<open>pqwire_feed_input\<close>: the return value and the context; \<open>data = None\<close> is the \<open>NULL\<close>
  pointer.
\<close>

definition pqwire_feed_input ::
  "env \<Rightarrow> pqwire_ctx \<Rightarrow> bytes option \<Rightarrow> (nat \<times> pqwire_ctx) option option" where
  "pqwire_feed_input E c data =
     (if \<not> ctx_ok c \<or> data = None then Some (Some (0, c))
      else let d = the data in
        case reserve_input E c (length d) of
          None \<Rightarrow> Some (Some (0, c))
        | Some c \<Rightarrow>
            (case poke (input_buf c) (input_len c) d of
               None \<Rightarrow> Some None
             | Some buf \<Rightarrow>
                 map_option (map_option (\<lambda>c. (length d, c)))
                   (feed_loop (c\<lparr>input_buf := buf, input_len := input_len c + length d\<rparr>))))"

section \<open>What the message handlers do not look at\<close>

named_theorems core_simps

lemma bind_map_option: "Option.bind (map_option f m) g = Option.bind m (\<lambda>x. g (f x))"
  by (cases m) simp_all

lemma map_option_bind: "map_option f (Option.bind m g) = Option.bind m (\<lambda>x. map_option f (g x))"
  by (cases m) simp_all

text \<open>
  An update of a context that the handlers neither see nor undo: it keeps the fields they
  read and commutes with the updates they make. Then it commutes with every handler.
\<close>

locale hidden_update =
  fixes u :: "pqwire_ctx \<Rightarrow> pqwire_ctx"
  assumes fields [simp]:
    "role (u c) = role c" "startup_seen (u c) = startup_seen c" "max_message_size (u c) = max_message_size c"
    "input_epoch (u c) = input_epoch c" "col_scratch (u c) = col_scratch c"
    "col_name_scratch (u c) = col_name_scratch c" "row_arena (u c) = row_arena c"
    "row_arena_used (u c) = row_arena_used c"
  and updates [core_simps]:
    \<comment> \<open>oriented so that \<open>u\<close> moves outwards\<close>
    "(u c)\<lparr>user_scratch := s\<rparr> = u (c\<lparr>user_scratch := s\<rparr>)"
    "(u c)\<lparr>db_scratch := s\<rparr> = u (c\<lparr>db_scratch := s\<rparr>)"
    "(u c)\<lparr>sql_scratch := s\<rparr> = u (c\<lparr>sql_scratch := s\<rparr>)"
    "(u c)\<lparr>tag_scratch := s\<rparr> = u (c\<lparr>tag_scratch := s\<rparr>)"
    "(u c)\<lparr>col_scratch := x\<rparr> = u (c\<lparr>col_scratch := x\<rparr>)"
    "(u c)\<lparr>col_name_scratch := y\<rparr> = u (c\<lparr>col_name_scratch := y\<rparr>)"
    "(u c)\<lparr>row_arena := a\<rparr> = u (c\<lparr>row_arena := a\<rparr>)"
    "(u c)\<lparr>row_arena_used := n\<rparr> = u (c\<lparr>row_arena_used := n\<rparr>)"
    "(u c)\<lparr>proto_state := p\<rparr> = u (c\<lparr>proto_state := p\<rparr>)"
    "(u c)\<lparr>auth_state := q\<rparr> = u (c\<lparr>auth_state := q\<rparr>)"
    "(u c)\<lparr>startup_seen := b\<rparr> = u (c\<lparr>startup_seen := b\<rparr>)"
  and enqueue [core_simps]: "enqueue_event (u c) ev = map_option u (enqueue_event c ev)"
begin

lemma if_u [core_simps]: "(if b then u x else u y) = u (if b then x else y)"
  by simp

lemma startup_params_u [core_simps]:
  "startup_params body off (u c) = map_option u (startup_params body off c)"
proof (induction "length body - off" arbitrary: off c rule: less_induct)
  case less
  show ?case
    by (subst (1 2) startup_params.simps)
      (simp add: core_simps less split: option.split)
qed

lemma row_desc_cols_u [core_simps]:
  "row_desc_cols body n i off (u c) = map_option (map_prod id u) (row_desc_cols body n i off c)"
proof (induction "n - i" arbitrary: i off c)
  case 0
  then show ?case by (subst (1 2) row_desc_cols.simps) simp
next
  case (Suc k)
  then have k: "k = n - Suc i" by simp
  show ?case
    by (subst (1 2) row_desc_cols.simps)
      (simp add: Let_def core_simps Suc.hyps(1) [OF k] split: option.split)
qed

lemma take_column_u [core_simps]:
  "take_column body off need i r (u c) = map_option (map_prod id u) (take_column body off need i r c)"
  by (simp add: take_column_def core_simps split: Option.bind_split)

lemma data_row_cols_u [core_simps]:
  "data_row_cols body n i off r (u c) =
     map_option (map_prod id (map_prod id u)) (data_row_cols body n i off r c)"
proof (induction "n - i" arbitrary: i off r c)
  case 0
  then show ?case by (subst (1 2) data_row_cols.simps) simp
next
  case (Suc k)
  then have k: "k = n - Suc i" by simp
  show ?case
    by (subst (1 2) data_row_cols.simps)
      (simp add: core_simps Suc.hyps(1) [OF k] split: option.split)
qed

lemma body_ptr_u [simp]: "body_ptr (u c) = body_ptr c"
  by (simp add: body_ptr_def fun_eq_iff)

lemma parse_u [core_simps]:
  "parse_query_msg (u c) body = map_option u (parse_query_msg c body)"
  "parse_parse_msg (u c) body = map_option u (parse_parse_msg c body)"
  "parse_bind_msg (u c) base body = map_option u (parse_bind_msg c base body)"
  "parse_describe_msg (u c) body = map_option u (parse_describe_msg c body)"
  "parse_execute_msg (u c) body = map_option u (parse_execute_msg c body)"
  "parse_close_msg (u c) body = map_option u (parse_close_msg c body)"
  "parse_row_description (u c) body = map_option u (parse_row_description c body)"
  "parse_data_row (u c) body = map_option u (parse_data_row c body)"
  "parse_command_complete (u c) body = map_option u (parse_command_complete c body)"
  "parse_error_response (u c) body = map_option u (parse_error_response c body)"
  "parse_notification_response (u c) body = map_option u (parse_notification_response c body)"
  "handle_authentication (u c) body = map_option u (handle_authentication c body)"
  "handle_ready_for_query (u c) = map_option u (handle_ready_for_query c)"
  by (simp add: parse_query_msg_def parse_parse_msg_def parse_bind_msg_def parse_describe_msg_def
      parse_execute_msg_def parse_close_msg_def parse_row_description_def parse_data_row_def
      parse_command_complete_def parse_error_response_def parse_notification_response_def
      handle_authentication_def handle_ready_for_query_def Let_def core_simps
      split: Option.bind_split option.split)+

lemma parse_startup_body_u [core_simps]:
  "parse_startup_body (u c) body = map_option u (parse_startup_body c body)"
  by (simp add: parse_startup_body_def Let_def core_simps bind_map_option map_option_bind)
    (auto simp: core_simps split: Option.bind_split)

lemma handle_message_u:
  "handle_message (u c) t base body = map_option u (handle_message c t base body)"
  by (simp add: handle_message_def handle_frontend_def handle_backend_def core_simps)

end

text \<open>\<open>core c\<close>: the context without its input buffer.\<close>

definition core :: "pqwire_ctx \<Rightarrow> pqwire_ctx" where
  "core c = c\<lparr>input_buf := [], input_len := 0, input_cap := 0\<rparr>"

interpretation no_input: hidden_update core
  by unfold_locales (simp_all add: core_def enqueue_event_def Let_def store_def)

lemma core_fields [simp]:
  "user_scratch (core c) = user_scratch c" "db_scratch (core c) = db_scratch c"
  "sql_scratch (core c) = sql_scratch c" "tag_scratch (core c) = tag_scratch c"
  "proto_state (core c) = proto_state c" "auth_state (core c) = auth_state c"
  "event_queue_size (core c) = event_queue_size c" "ring_items (core c) = ring_items c"
  "output_bytes (core c) = output_bytes c" "magic (core c) = magic c"
  by (simp_all add: core_def ring_items_def output_bytes_def)

section \<open>Framing as a function of the byte stream\<close>

text \<open>
  The specification of the loop: no buffer, no pointers, no 32-bit cursor arithmetic, only
  the bytes not yet parsed. One step yields whether to go on, the context and the bytes
  left.
\<close>

definition frame_startup :: "pqwire_ctx \<Rightarrow> bytes \<Rightarrow> (bool \<times> pqwire_ctx \<times> bytes) option" where
  "frame_startup c p =
     (if length p < 4 then Some (False, c, p)
      else do {
        mlen \<leftarrow> rd32_be p 0;
        if unat mlen < 8 \<or> unat mlen > max_message_size c
        then do { c \<leftarrow> enqueue_event c (plain_event PQ_EVENT_PROTOCOL_ERROR); Some (False, c, []) }
        else if length p < unat mlen then Some (False, c, p)
        else do {
          c \<leftarrow> parse_startup_body c (take (unat mlen - 4) (drop 4 p));
          Some (True, c, drop (unat mlen) p)
        }
      })"

definition frame_typed :: "pqwire_ctx \<Rightarrow> bytes \<Rightarrow> (bool \<times> pqwire_ctx \<times> bytes) option" where
  "frame_typed c p =
     (if length p < 5 then Some (False, c, p)
      else do {
        mlen \<leftarrow> rd32_be p 1;
        if unat mlen < 4 \<or> unat mlen > max_message_size c
        then do {
          c \<leftarrow> enqueue_event c (plain_event PQ_EVENT_PROTOCOL_ERROR);
          Some (True, c, if mlen > 0 \<and> length p \<ge> unat mlen + 1 then drop (1 + unat mlen) p else [])
        }
        else if length p < 1 + unat mlen then Some (False, c, p)
        else do {
          c \<leftarrow> handle_message c (hd p) 5 (take (unat mlen - 4) (drop 5 p));
          Some (True, c, drop (1 + unat mlen) p)
        }
      })"

definition frame_step :: "pqwire_ctx \<Rightarrow> bytes \<Rightarrow> (bool \<times> pqwire_ctx \<times> bytes) option" where
  "frame_step c p =
     (if role c = PQWIRE_ROLE_SERVER \<and> \<not> startup_seen c then frame_startup c p else frame_typed c p)"

lemma frame_step_decreases:
  "frame_step c p = Some (True, c', p') \<Longrightarrow> length p' < length p"
  by (auto simp: frame_step_def frame_startup_def frame_typed_def bind_eq_Some_conv split: if_splits)

function frame_run :: "pqwire_ctx \<Rightarrow> bytes \<Rightarrow> (pqwire_ctx \<times> bytes) option" where
  "frame_run c p =
     (case frame_step c p of
        None \<Rightarrow> None
      | Some (go, c', p') \<Rightarrow> if go then frame_run c' p' else Some (c', p'))"
  by pat_completeness auto
termination
  by (relation "measure (\<lambda>(c, p). length p)") (auto simp: frame_step_decreases)

declare frame_run.simps [simp del]

section \<open>The loop implements the specification\<close>

lemma rd32_be_take: "off + 4 \<le> n \<Longrightarrow> n \<le> length b \<Longrightarrow> rd32_be (take n b) off = rd32_be b off"
  by (simp add: rd32_be_def peek_def)

lemma length_pending: "wf_input c \<Longrightarrow> length (pending_input c) = input_len c"
  by (simp add: wf_input_def pending_input_def)

lemma shift_input_ok:
  assumes "src + n = input_len c" "input_len c \<le> length (input_buf c)"
  obtains b where "shift_input c src n = Some (c\<lparr>input_buf := b\<rparr>)" "length b = length (input_buf c)"
    "take n b = drop src (pending_input c)"
proof -
  let ?b = "take n (drop src (input_buf c)) @ drop n (input_buf c)"
  have "shift_input c src n = Some (c\<lparr>input_buf := ?b\<rparr>)" "length ?b = length (input_buf c)"
    using assms by (simp_all add: shift_input_def)
  moreover have "take n ?b = drop src (pending_input c)"
    using assms by (simp add: pending_input_def drop_take flip: assms(1))
  ultimately show thesis using that by blast
qed

text \<open>The header and the body of the next message, read from the buffer or from the stream.\<close>

lemma pending_header:
  assumes "wf_input c" "off + 4 \<le> input_len c"
  obtains v where "rd32_be (input_buf c) off = Some v" "rd32_be (pending_input c) off = Some v"
proof -
  have b: "off + 4 \<le> length (input_buf c)" "input_len c \<le> length (input_buf c)"
    using assms by (auto simp: wf_input_def)
  obtain v where "rd32_be (input_buf c) off = Some v" using be32.dec_defined b(1) by blast
  moreover from this have "rd32_be (pending_input c) off = Some v"
    using assms(2) b(2) by (simp add: pending_input_def rd32_be_take)
  ultimately show thesis using that by blast
qed

lemma pending_body:
  assumes "wf_input c" "off + n \<le> input_len c"
  shows "mem_read (input_buf c) off n = Some (take n (drop off (pending_input c)))"
  using assms by (auto simp: wf_input_def pending_input_def drop_take min_def)

text \<open>The abstraction: the bytes pending, and the rest of the context.\<close>

fun step_ctx :: "loop_step \<Rightarrow> pqwire_ctx" where
  "step_ctx (Break c) = c"
| "step_ctx (Continue c) = c"

fun step_view :: "loop_step \<Rightarrow> bool \<times> pqwire_ctx \<times> bytes" where
  "step_view (Break c) = (False, core c, pending_input c)"
| "step_view (Continue c) = (True, core c, pending_input c)"

definition step_ok :: "pqwire_ctx \<Rightarrow> loop_step \<Rightarrow> bool" where
  "step_ok c s \<longleftrightarrow> wf_ctx (step_ctx s) \<and> input_cap (step_ctx s) = input_cap c \<and>
     magic (step_ctx s) = magic c"

lemma core_input [simp]: "core (c\<lparr>input_buf := b\<rparr>) = core c" "core (c\<lparr>input_len := n\<rparr>) = core c"
  by (simp_all add: core_def)

lemma wf_ctx_input:
  assumes "wf_ctx c" "length b = input_cap c" "n \<le> input_cap c"
  shows "wf_ctx (c\<lparr>input_buf := b, input_len := n\<rparr>)"
  using assms by (auto simp: wf_defs ring_items_def)

lemma wf_ctx_empty: "wf_ctx c \<Longrightarrow> wf_ctx (c\<lparr>input_len := 0\<rparr>)"
  by (auto simp: wf_defs ring_items_def)

lemma parse_frame_pending: "parse_frame c c' \<Longrightarrow> pending_input c' = pending_input c"
  by (simp add: parse_frame_def pending_input_def)

text \<open>
  A step of the loop that takes a message of \<open>n\<close> bytes off the buffer: shared by the
  branches that shift the input down.
\<close>

lemma drop_message:
  assumes "wf_ctx d" "n \<le> input_len d"
  obtains e where "shift_input d n (input_len d - n) = Some e" "core e = core d"
    "input_len e = input_len d" "input_cap e = input_cap d" "magic e = magic d"
    "wf_ctx (e\<lparr>input_len := input_len d - n\<rparr>)"
    "pending_input (e\<lparr>input_len := input_len d - n\<rparr>) = drop n (pending_input d)"
proof -
  have l: "input_len d \<le> length (input_buf d)" "length (input_buf d) = input_cap d"
    using assms(1) by (auto simp: wf_defs)
  obtain b where b: "shift_input d n (input_len d - n) = Some (d\<lparr>input_buf := b\<rparr>)"
    "length b = length (input_buf d)" "take (input_len d - n) b = drop n (pending_input d)"
    using shift_input_ok [of n "input_len d - n" d] assms(2) l by auto
  show thesis
    by (rule that [OF b(1)]) (use assms b l in \<open>auto simp: wf_ctx_input pending_input_def\<close>)
qed

lemma startup_step_refines:
  assumes wf: "wf_ctx c"
  shows "\<exists>s. startup_step c = Some s \<and> frame_startup (core c) (pending_input c) = Some (step_view s) \<and>
             step_ok c s"
proof (cases "input_len c < 4")
  case True
  with wf show ?thesis by (auto simp: step_ok_def startup_step_def frame_startup_def length_pending wf_ctx_def)
next
  case False
  have wi: "wf_input c" using wf by (simp add: wf_ctx_def)
  obtain mlen where m: "rd32_be (input_buf c) 0 = Some mlen" "rd32_be (pending_input c) 0 = Some mlen"
    using pending_header [OF wi, of 0] False by auto
  note lp = length_pending [OF wi]
  consider (bad) "unat mlen < 8 \<or> unat mlen > max_message_size c"
    | (more) "\<not> (unat mlen < 8 \<or> unat mlen > max_message_size c)" "input_len c < unat mlen"
    | (ok) "8 \<le> unat mlen" "unat mlen \<le> max_message_size c" "unat mlen \<le> input_len c" by linarith
  then show ?thesis
  proof cases
    case bad
    obtain d where d: "enqueue_event c (plain_event PQ_EVENT_PROTOCOL_ERROR) = Some d" "wf_ctx d"
      "input_cap d = input_cap c" "magic d = magic c"
      using safe_enqueue [OF wf, of "plain_event PQ_EVENT_PROTOCOL_ERROR"]
      by (auto simp: safe_step_def parse_frame_def)
    show ?thesis
      using False m bad d lp
      by (auto simp: step_ok_def startup_step_def frame_startup_def core_simps wf_ctx_empty pending_input_def)
  next
    case more
    with False m wf lp show ?thesis by (simp add: step_ok_def startup_step_def frame_startup_def)
  next
    case ok
    let ?body = "take (unat mlen - 4) (drop 4 (pending_input c))"
    have body: "mem_read (input_buf c) 4 (unat mlen - 4) = Some ?body"
      using pending_body [OF wi, of 4 "unat mlen - 4"] ok by simp
    have "4 \<le> length ?body" using lp ok by simp
    from parse_startup_body_safe [OF wf this]
    obtain d where d: "parse_startup_body c ?body = Some d" "wf_ctx d"
      "parse_frame (c\<lparr>startup_seen := True\<rparr>) d"
      by blast
    have p: "input_len d = input_len c" "pending_input d = pending_input c" "input_cap d = input_cap c" "magic d = magic c"
      using d(3) by (simp_all add: parse_frame_def pending_input_def)
    obtain e where e: "shift_input d (unat mlen) (input_len d - unat mlen) = Some e" "core e = core d"
      "input_len e = input_len d" "input_cap e = input_cap d" "magic e = magic d" "wf_ctx (e\<lparr>input_len := input_len d - unat mlen\<rparr>)"
      "pending_input (e\<lparr>input_len := input_len d - unat mlen\<rparr>) = drop (unat mlen) (pending_input d)"
      using drop_message [OF d(2), of "unat mlen"] ok p by auto
    show ?thesis
      using ok m lp body d e p
      by (auto simp: step_ok_def startup_step_def frame_startup_def core_simps)
  qed
qed

lemma unat_Suc_u32: "unat (m :: u32) < 2 ^ 32 - 1 \<Longrightarrow> unat (1 + m) = 1 + unat m"
  by (subst unat_plus_simple [THEN iffD1]) (auto simp: word_le_nat_alt unat_word_ariths)

lemma bad_length_refines:
  assumes wf: "wf_ctx c" and small: "input_len c < 2 ^ 32"
  shows "\<exists>s d. bad_length_step c mlen = Some s \<and>
     enqueue_event (core c) (plain_event PQ_EVENT_PROTOCOL_ERROR) = Some d \<and>
     step_view s = (True, d, if mlen > 0 \<and> length (pending_input c) \<ge> unat mlen + 1
                             then drop (1 + unat mlen) (pending_input c) else []) \<and>
     step_ok c s"
proof -
  have wi: "wf_input c" using wf by (simp add: wf_ctx_def)
  note lp = length_pending [OF wi]
  obtain d where d: "enqueue_event c (plain_event PQ_EVENT_PROTOCOL_ERROR) = Some d" "wf_ctx d"
    "parse_frame c d"
    using safe_enqueue [OF wf, of "plain_event PQ_EVENT_PROTOCOL_ERROR"] by (auto simp: safe_step_def)
  have p: "input_len d = input_len c" "pending_input d = pending_input c" "input_cap d = input_cap c" "magic d = magic c"
    using d(3) by (simp_all add: parse_frame_def pending_input_def)
  show ?thesis
  proof (cases "mlen > 0 \<and> input_len c \<ge> unat mlen + 1")
    case True
    obtain e where e: "shift_input d (1 + unat mlen) (input_len d - (1 + unat mlen)) = Some e"
      "core e = core d" "input_len e = input_len d" "input_cap e = input_cap d" "magic e = magic d"
      "wf_ctx (e\<lparr>input_len := input_len d - (1 + unat mlen)\<rparr>)"
      "pending_input (e\<lparr>input_len := input_len d - (1 + unat mlen)\<rparr>) = drop (1 + unat mlen) (pending_input d)"
      using drop_message [OF d(2), of "1 + unat mlen"] True p by auto
    have "unat (1 + mlen) = 1 + unat mlen" using True small by (intro unat_Suc_u32) linarith
    then show ?thesis
      using True d e p lp by (simp add: step_ok_def bad_length_step_def core_simps)
  next
    case False
    then show ?thesis
      using d p lp by (auto simp: step_ok_def bad_length_step_def core_simps wf_ctx_empty pending_input_def)
  qed
qed

lemma typed_step_refines:
  assumes wf: "wf_ctx c" and small: "input_len c < 2 ^ 32"
  shows "\<exists>s. typed_step c = Some s \<and> frame_typed (core c) (pending_input c) = Some (step_view s) \<and>
             step_ok c s"
proof (cases "input_len c < 5")
  case True
  with wf show ?thesis by (auto simp: step_ok_def typed_step_def frame_typed_def length_pending wf_ctx_def)
next
  case False
  have wi: "wf_input c" using wf by (simp add: wf_ctx_def)
  note lp = length_pending [OF wi]
  obtain mlen where m: "rd32_be (input_buf c) 1 = Some mlen" "rd32_be (pending_input c) 1 = Some mlen"
    using pending_header [OF wi, of 1] False by auto
  have t: "peek (input_buf c) 0 = Some (hd (pending_input c))"
    using wi False by (cases "input_buf c") (auto simp: pending_input_def wf_input_def take_Cons')
  consider (bad) "unat mlen < 4 \<or> unat mlen > max_message_size c"
    | (more) "\<not> (unat mlen < 4 \<or> unat mlen > max_message_size c)" "input_len c < 1 + unat mlen"
    | (ok) "4 \<le> unat mlen" "unat mlen \<le> max_message_size c" "1 + unat mlen \<le> input_len c" by linarith
  then show ?thesis
  proof cases
    case bad
    obtain s d where s: "bad_length_step c mlen = Some s"
       "enqueue_event (core c) (plain_event PQ_EVENT_PROTOCOL_ERROR) = Some d"
       "step_view s = (True, d, if mlen > 0 \<and> length (pending_input c) \<ge> unat mlen + 1
                             then drop (1 + unat mlen) (pending_input c) else [])"
       "step_ok c s"
      using bad_length_refines [OF wf small, of mlen] by blast
    then show ?thesis
      using False m t bad lp by (auto simp: typed_step_def frame_typed_def)
  next
    case more
    with False m t wf lp show ?thesis by (simp add: step_ok_def typed_step_def frame_typed_def Let_def)
  next
    case ok
    let ?body = "take (unat mlen - 4) (drop 5 (pending_input c))"
    have body: "mem_read (input_buf c) 5 (unat mlen - 4) = Some ?body"
      using pending_body [OF wi, of 5 "unat mlen - 4"] ok by simp
    obtain d where d: "handle_message c (hd (pending_input c)) 5 ?body = Some d" "wf_ctx d"
      "parse_frame c d"
      using handle_message_safe [OF wf] unfolding safe_step_def by blast
    have p: "input_len d = input_len c" "pending_input d = pending_input c" "input_cap d = input_cap c" "magic d = magic c"
      using d(3) by (simp_all add: parse_frame_def pending_input_def)
    obtain e where e: "shift_input d (1 + unat mlen) (input_len d - (1 + unat mlen)) = Some e"
      "core e = core d" "input_len e = input_len d" "input_cap e = input_cap d" "magic e = magic d"
      "wf_ctx (e\<lparr>input_len := input_len d - (1 + unat mlen)\<rparr>)"
      "pending_input (e\<lparr>input_len := input_len d - (1 + unat mlen)\<rparr>) = drop (1 + unat mlen) (pending_input d)"
      using drop_message [OF d(2), of "1 + unat mlen"] ok p by auto
    show ?thesis
      using ok m t lp body d e p
      by (simp add: step_ok_def typed_step_def frame_typed_def no_input.handle_message_u Let_def)
  qed
qed

lemma feed_step_refines:
  assumes "wf_ctx c" "input_len c < 2 ^ 32"
  shows "\<exists>s. feed_step c = Some s \<and> frame_step (core c) (pending_input c) = Some (step_view s) \<and>
             step_ok c s"
  using startup_step_refines [OF assms(1)] typed_step_refines [OF assms]
  by (simp add: feed_step_def frame_step_def)

text \<open>The loop returns, without a fault, and computes what the specification computes.\<close>

lemma feed_loop_refines:
  assumes "wf_ctx c" "input_len c < 2 ^ 32"
  shows "\<exists>c'. feed_loop c = Some (Some c') \<and> wf_ctx c' \<and> input_cap c' = input_cap c \<and>
     magic c' = magic c \<and>
     frame_run (core c) (pending_input c) = Some (core c', pending_input c')"
  using assms
proof (induction "input_len c" arbitrary: c rule: less_induct)
  case less
  obtain s where s: "feed_step c = Some s" "frame_step (core c) (pending_input c) = Some (step_view s)"
    "step_ok c s"
    using feed_step_refines [OF less.prems] by blast
  show ?case
  proof (cases s)
    case (Break d)
    with s show ?thesis
      by (subst feed_loop.simps, subst frame_run.simps) (simp add: step_ok_def)
  next
    case (Continue d)
    have d: "wf_ctx d" "input_cap d = input_cap c" "magic d = magic c"
      using s(3) Continue by (simp_all add: step_ok_def)
    have "length (pending_input d) < length (pending_input c)"
      using s(2) Continue by (intro frame_step_decreases [of "core c" _ "core d"]) simp
    then have l: "input_len d < input_len c"
      using d(1) less.prems(1) by (simp add: length_pending wf_ctx_def)
    then obtain c' where "feed_loop d = Some (Some c')" "wf_ctx c'" "input_cap c' = input_cap d"
       "magic c' = magic d"
       "frame_run (core d) (pending_input d) = Some (core c', pending_input c')"
      using less.hyps [OF l d(1)] less.prems(2) by auto
    with s Continue d show ?thesis by (subst feed_loop.simps, subst frame_run.simps) simp
  qed
qed

section \<open>\<open>pqwire_feed_input\<close>\<close>

text \<open>The whole call: the bytes are appended to the pending ones and the loop runs.\<close>

lemma reserve_input_ok:
  assumes "wf_ctx c" "reserve_input E c n = Some d"
  shows "wf_ctx d" "pending_input d = pending_input c" "input_len d = input_len c"
    "input_len c + n \<le> input_cap d" "magic d = magic c"
    "core d = core (c\<lparr>input_epoch := input_epoch d\<rparr>)"
    "input_len c + n \<le> input_cap c \<Longrightarrow> d = c"
  using assms
  by (auto simp: reserve_input_def Let_def wf_defs ring_items_def pending_input_def grown_block_def
      core_def split: if_splits)

lemma feed_input_runs:
  assumes wf: "wf_ctx c" and ok: "ctx_ok c" and small: "input_len c + length d < 2 ^ 32"
    and r: "reserve_input E c (length d) = Some c1"
  shows "\<exists>c'. pqwire_feed_input E c (Some d) = Some (Some (length d, c')) \<and> wf_ctx c' \<and>
     input_cap c' = input_cap c1 \<and> ctx_ok c' \<and>
     frame_run (core c1) (pending_input c @ d) = Some (core c', pending_input c')"
proof -
  note c1 = reserve_input_ok [OF wf r]
  let ?b = "take (input_len c1) (input_buf c1) @ d @ drop (input_len c1 + length d) (input_buf c1)"
  let ?c = "c1\<lparr>input_buf := ?b, input_len := input_len c1 + length d\<rparr>"
  have b: "length (input_buf c1) = input_cap c1" "input_len c1 + length d \<le> input_cap c1"
    using c1(1,3,4) by (auto simp: wf_defs)
  have "wf_ctx ?c" using c1(1) b by (intro wf_ctx_input) auto
  then obtain c' where c': "feed_loop ?c = Some (Some c')" "wf_ctx c'" "input_cap c' = input_cap c1"
     "magic c' = magic c1"
     "frame_run (core c1) (pending_input ?c) = Some (core c', pending_input c')"
    using feed_loop_refines [of ?c] small c1(3) by auto
  moreover have "pending_input ?c = pending_input c1 @ d"
    using b by (simp add: pending_input_def)
  ultimately show ?thesis
    using ok r b c1(2,5) by (auto simp: pqwire_feed_input_def Let_def ctx_ok_def)
qed

lemma feed_input_refused:
  assumes "reserve_input E c (length d) = None"
  shows "pqwire_feed_input E c (Some d) = Some (Some (0, c))"
  using assms by (simp add: pqwire_feed_input_def)

section \<open>A stream in pieces\<close>

text \<open>
  \<open>bad_header c p\<close>: the next header is complete and its length is out of range. A stream is
  \<open>clean\<close> when the loop meets no such header.
\<close>

definition bad_header :: "pqwire_ctx \<Rightarrow> bytes \<Rightarrow> bool" where
  "bad_header c p \<longleftrightarrow>
     (if role c = PQWIRE_ROLE_SERVER \<and> \<not> startup_seen c
      then case rd32_be p 0 of None \<Rightarrow> False
           | Some n \<Rightarrow> unat n < 8 \<or> unat n > max_message_size c
      else case rd32_be p 1 of None \<Rightarrow> False
           | Some n \<Rightarrow> unat n < 4 \<or> unat n > max_message_size c)"

function clean :: "pqwire_ctx \<Rightarrow> bytes \<Rightarrow> bool" where
  "clean c p \<longleftrightarrow>
     \<not> bad_header c p \<and>
     (case frame_step c p of None \<Rightarrow> False | Some (go, c', p') \<Rightarrow> if go then clean c' p' else True)"
  by pat_completeness auto
termination
  by (relation "measure (\<lambda>(c, p). length p)") (auto simp: frame_step_decreases)

declare clean.simps [simp del]

text \<open>Framing commutes with the hidden updates too.\<close>

context hidden_update
begin

lemma frame_startup_u:
  "frame_startup (u c) p = map_option (\<lambda>(go, d, r). (go, u d, r)) (frame_startup c p)"
proof (cases "rd32_be p 0")
  case None
  then show ?thesis by (simp add: frame_startup_def)
next
  case (Some n)
  then show ?thesis
    by (cases "parse_startup_body c (take (unat n - 4) (drop 4 p))";
        cases "enqueue_event c (plain_event PQ_EVENT_PROTOCOL_ERROR)") (simp_all add: frame_startup_def core_simps)
qed

lemma frame_typed_u:
  "frame_typed (u c) p = map_option (\<lambda>(go, d, r). (go, u d, r)) (frame_typed c p)"
proof (cases "rd32_be p 1")
  case None
  then show ?thesis by (simp add: frame_typed_def)
next
  case (Some n)
  then show ?thesis
    by (cases "handle_message c (hd p) 5 (take (unat n - 4) (drop 5 p))";
        cases "enqueue_event c (plain_event PQ_EVENT_PROTOCOL_ERROR)")
      (simp_all add: frame_typed_def core_simps handle_message_u)
qed

lemma frame_step_u:
  "frame_step (u c) p = map_option (\<lambda>(go, d, r). (go, u d, r)) (frame_step c p)"
  by (simp add: frame_step_def frame_startup_u frame_typed_u)

lemma frame_run_u: "frame_run (u c) p = map_option (map_prod u id) (frame_run c p)"
proof (induction "length p" arbitrary: c p rule: less_induct)
  case less
  show ?case
  proof (cases "frame_step c p")
    case None
    then show ?thesis by (subst (1 2) frame_run.simps) (simp add: frame_step_u)
  next
    case (Some g)
    obtain go d r where g: "g = (go, d, r)" by (cases g)
    then show ?thesis
      using Some less frame_step_decreases [of c p d r] by (subst (1 2) frame_run.simps) (auto simp: frame_step_u)
  qed
qed

end

lemma rd32_be_append: "off + 4 \<le> length p \<Longrightarrow> rd32_be (p @ q) off = rd32_be p off"
  by (simp add: rd32_be_def peek_def nth_append)

lemma rd32_be_short: "length p < off + 4 \<Longrightarrow> rd32_be p off = None"
  by (simp add: rd32_be_def peek_def bind_eq_None_conv)

lemma bad_header_prefix: "bad_header c p \<Longrightarrow> bad_header c (p @ q)"
  by (cases "4 \<le> length p"; cases "5 \<le> length p")
    (auto simp: bad_header_def rd32_be_append rd32_be_short split: if_splits)

lemma frame_startup_append:
  assumes "frame_startup c p = Some (True, c', p')"
    and n: "\<And>n. rd32_be p 0 = Some n \<Longrightarrow> \<not> (unat n < 8 \<or> unat n > max_message_size c)"
  shows "frame_startup c (p @ q) = Some (True, c', p' @ q)"
proof -
  from assms(1) obtain n where p: "4 \<le> length p" "rd32_be p 0 = Some n"
    by (auto simp: frame_startup_def bind_eq_Some_conv split: if_splits)
  then have "unat n \<le> length p" using assms(1) n [OF p(2)]
    by (auto simp: frame_startup_def split: if_splits)
  with assms(1) p n [OF p(2)] rd32_be_append [of 0 p q] show ?thesis
    by (auto simp: frame_startup_def bind_eq_Some_conv)
qed

lemma frame_typed_append:
  assumes "frame_typed c p = Some (True, c', p')"
    and n: "\<And>n. rd32_be p 1 = Some n \<Longrightarrow> \<not> (unat n < 4 \<or> unat n > max_message_size c)"
  shows "frame_typed c (p @ q) = Some (True, c', p' @ q)"
proof -
  from assms(1) obtain n where p: "5 \<le> length p" "rd32_be p 1 = Some n"
    by (auto simp: frame_typed_def bind_eq_Some_conv split: if_splits)
  then have "1 + unat n \<le> length p" using assms(1) n [OF p(2)]
    by (auto simp: frame_typed_def split: if_splits)
  moreover have "hd (p @ q) = hd p" using p(1) by (cases p) auto
  ultimately show ?thesis
    using assms(1) p n [OF p(2)] rd32_be_append [of 1 p q]
    by (auto simp: frame_typed_def bind_eq_Some_conv)
qed

lemma frame_step_append:
  assumes "\<not> bad_header c p" "frame_step c p = Some (True, c', p')"
  shows "frame_step c (p @ q) = Some (True, c', p' @ q)"
proof (cases "role c = PQWIRE_ROLE_SERVER \<and> \<not> startup_seen c")
  case True
  with assms frame_startup_append [of c p c' p' q] show ?thesis
    by (auto simp: frame_step_def bad_header_def split: option.splits)
next
  case False
  with assms frame_typed_append [of c p c' p' q] show ?thesis
    by (auto simp: frame_step_def bad_header_def split: option.splits)
qed

lemma frame_step_wait:
  assumes "\<not> bad_header c p" "frame_step c p = Some (False, c', p')"
  shows "c' = c \<and> p' = p"
  using assms
  by (auto simp: frame_step_def frame_startup_def frame_typed_def bad_header_def
      bind_eq_Some_conv split: if_splits)

lemma frame_run_append:
  "clean c p \<Longrightarrow> frame_run c p = Some (c', p') \<Longrightarrow> frame_run c (p @ q) = frame_run c' (p' @ q)"
proof (induction c p rule: clean.induct)
  case (1 c p)
  from 1(2) obtain go d r where s: "frame_step c p = Some (go, d, r)" "\<not> bad_header c p"
    "go \<Longrightarrow> clean d r"
    by (subst (asm) clean.simps) (auto split: option.splits prod.splits if_splits)
  show ?case
  proof (cases go)
    case True
    have "frame_run d r = Some (c', p')" using 1(3) s(1) True by (subst (asm) frame_run.simps) simp
    then have "frame_run d (r @ q) = frame_run c' (p' @ q)" using 1(1) s True by blast
    then show ?thesis using frame_step_append [OF s(2), of d r q] s(1) True
      by (subst frame_run.simps) simp
  next
    case False
    then have "c' = c" "p' = p" using 1(3) s frame_step_wait [OF s(2)]
      by (auto simp: frame_run.simps [of c p])
    then show ?thesis by simp
  qed
qed

lemma clean_append:
  "clean c (p @ q) \<Longrightarrow> frame_run c p = Some (c', p') \<Longrightarrow> clean c p \<and> clean c' (p' @ q)"
proof (induction c p rule: frame_run.induct)
  case (1 c p)
  have b: "\<not> bad_header c (p @ q)" using 1(2) by (subst (asm) clean.simps) simp
  then have nb: "\<not> bad_header c p" using bad_header_prefix by blast
  from 1(3) obtain go d r where s: "frame_step c p = Some (go, d, r)"
    by (subst (asm) frame_run.simps) (auto split: option.splits)
  show ?case
  proof (cases go)
    case True
    have r: "frame_run d r = Some (c', p')" using 1(3) s True by (subst (asm) frame_run.simps) simp
    have "clean d (r @ q)" using 1(2) frame_step_append [OF nb, of d r q] s True
      by (subst (asm) clean.simps) simp
    then have "clean d r \<and> clean c' (p' @ q)" using 1(1) s True r by blast
    then show ?thesis using nb s True by (subst clean.simps) simp
  next
    case False
    then have "c' = c" "p' = p" using 1(3) s frame_step_wait [OF nb]
      by (auto simp: frame_run.simps [of c p])
    then show ?thesis using 1(2) nb s False by (simp add: clean.simps [of c p])
  qed
qed

text \<open>Feeding a list of pieces one after the other.\<close>

fun feed_all :: "env \<Rightarrow> pqwire_ctx \<Rightarrow> bytes list \<Rightarrow> pqwire_ctx option option" where
  "feed_all E c [] = Some (Some c)"
| "feed_all E c (d # ds) =
     (case pqwire_feed_input E c (Some d) of
        None \<Rightarrow> None
      | Some None \<Rightarrow> Some None
      | Some (Some (n, c')) \<Rightarrow> feed_all E c' ds)"

lemma frame_run_shrinks: "frame_run c p = Some (c', p') \<Longrightarrow> length p' \<le> length p"
proof (induction c p rule: frame_run.induct)
  case (1 c p)
  then obtain go d r where s: "frame_step c p = Some (go, d, r)"
    by (subst (asm) (2) frame_run.simps) (auto split: option.splits)
  show ?case
  proof (cases go)
    case True
    with 1(2) s have "frame_run d r = Some (c', p')" by (subst (asm) frame_run.simps) simp
    with 1(1) s True frame_step_decreases [of c p d r] show ?thesis by fastforce
  next
    case False
    with 1(2) s have "p' = r" by (subst (asm) frame_run.simps) simp
    with s False show ?thesis
      by (auto simp: frame_step_def frame_startup_def frame_typed_def bind_eq_Some_conv split: if_splits)
  qed
qed

lemma feed_all_run:
  assumes "ds \<noteq> []" "wf_ctx c" "ctx_ok c" "input_len c + length (concat ds) \<le> input_cap c"
    "input_cap c < 2 ^ 32" "clean (core c) (pending_input c @ concat ds)"
  shows "\<exists>c'. feed_all E c ds = Some (Some c') \<and> wf_ctx c' \<and>
     frame_run (core c) (pending_input c @ concat ds) = Some (core c', pending_input c')"
  using assms
proof (induction ds arbitrary: c rule: list_nonempty_induct)
  case (single d)
  then have "reserve_input E c (length d) = Some c" by (simp add: reserve_input_def)
  from feed_input_runs [OF single(1,2) _ this] single show ?case by auto
next
  case (cons d ds)
  have r: "reserve_input E c (length d) = Some c" using cons.prems by (simp add: reserve_input_def)
  have "input_len c + length d < 2 ^ 32" using cons.prems(3,4) by simp
  from feed_input_runs [OF cons.prems(1,2) this r]
  obtain c1 where c1: "pqwire_feed_input E c (Some d) = Some (Some (length d, c1))" "wf_ctx c1"
     "input_cap c1 = input_cap c" "ctx_ok c1"
     "frame_run (core c) (pending_input c @ d) = Some (core c1, pending_input c1)" by blast
  have k: "clean (core c) ((pending_input c @ d) @ concat ds)" using cons.prems(5) by simp
  note cl = clean_append [OF k c1(5)]
  have "input_len c1 \<le> input_len c + length d"
    using frame_run_shrinks [OF c1(5)] length_pending c1(2) cons.prems(1) by (simp add: wf_ctx_def)
  then obtain c' where c': "feed_all E c1 ds = Some (Some c')" "wf_ctx c'"
     "frame_run (core c1) (pending_input c1 @ concat ds) = Some (core c', pending_input c')"
    using cons.IH [OF c1(2,4)] cl cons.prems(3,4) c1(3) by auto
  moreover have "frame_run (core c) (pending_input c @ concat (d # ds)) =
      frame_run (core c1) (pending_input c1 @ concat ds)"
    using frame_run_append [OF conjunct1 [OF cl] c1(5), of "concat ds"] by simp
  ultimately show ?case using c1(1) by simp
qed

section \<open>A stream on which the loop does not return\<close>

text \<open>
  \<open>1 + mlen\<close> is computed in 32 bits. With 4 GiB in the buffer and the length field
  \<open>0xFFFFFFFF\<close> it is 0, nothing is taken off, and the next pass meets the same header.
\<close>

definition stuck :: "pqwire_ctx \<Rightarrow> bool" where
  "stuck c \<longleftrightarrow>
     wf_ctx c \<and> \<not> (role c = PQWIRE_ROLE_SERVER \<and> \<not> startup_seen c) \<and> input_len c = 2 ^ 32 \<and>
     rd32_be (input_buf c) 1 = Some (- 1) \<and> max_message_size c < 2 ^ 32 - 1"

lemma unat_minus_one_u32: "unat (- 1 :: u32) = 2 ^ 32 - 1"
  by (simp add: unsigned_minus_1_eq_mask mask_eq_exp_minus_1)

lemma stuck_step:
  assumes "stuck c"
  shows "\<exists>c'. feed_step c = Some (Continue c') \<and> stuck c'"
proof -
  have c: "wf_ctx c" "\<not> (role c = PQWIRE_ROLE_SERVER \<and> \<not> startup_seen c)" "input_len c = 2 ^ 32"
    "rd32_be (input_buf c) 1 = Some (- 1)" "max_message_size c < 2 ^ 32 - 1"
    "2 ^ 32 \<le> length (input_buf c)"
    using assms by (auto simp: stuck_def wf_defs)
  obtain d where d: "enqueue_event c (plain_event PQ_EVENT_PROTOCOL_ERROR) = Some d" "wf_ctx d"
    "parse_frame c d"
    using safe_enqueue [OF c(1), of "plain_event PQ_EVENT_PROTOCOL_ERROR"] by (auto simp: safe_step_def)
  have f: "input_len d = 2 ^ 32" "input_buf d = input_buf c" "role d = role c"
    "startup_seen d = startup_seen c" "max_message_size d = max_message_size c"
    using d(3) c(3) by (simp_all add: parse_frame_def)
  have "shift_input d (2 ^ 32) 0 = Some d"
    using c(6) f(2) by (simp add: shift_input_def mem_read_def poke_def)
  moreover have "(0 :: u32) < - 1" by (simp add: word_less_nat_alt unat_minus_one_u32)
  ultimately have "bad_length_step c (- 1) = Some (Continue d)"
    using d(1) f(1) by (simp add: bad_length_step_def unat_minus_one_u32)
  moreover have "peek (input_buf c) 0 = Some (input_buf c ! 0)"
    by (rule peek_Some) (rule less_le_trans [OF _ c(6)], simp)
  ultimately have "feed_step c = Some (Continue d)"
    using c by (auto simp: feed_step_def typed_step_def unat_minus_one_u32)
  moreover have "stuck d" using c d(2) f by (simp add: stuck_def)
  ultimately show ?thesis by blast
qed

lemma stuck_diverges: "stuck c \<Longrightarrow> feed_loop c = None"
proof -
  have "feed_loop c = Some y \<Longrightarrow> \<not> stuck c" for y
  proof (induction rule: feed_loop.raw_induct [rotated, consumes 1])
    case (1 loop c y)
    show ?case
    proof
      assume "stuck c"
      then obtain c' where "feed_step c = Some (Continue c')" "stuck c'" using stuck_step by blast
      with 1 show False by simp
    qed
  qed
  then show "stuck c \<Longrightarrow> feed_loop c = None" by (cases "feed_loop c") auto
qed

lemma wf_core: "wf_ctx c \<Longrightarrow> wf_ctx (core c)"
  by (auto simp: core_def wf_defs ring_items_def)

lemma clean_short: "length p < 4 \<Longrightarrow> clean c p"
  by (subst clean.simps)
    (simp add: bad_header_def rd32_be_short frame_step_def frame_startup_def frame_typed_def)

lemma clean_typed:
  assumes "\<not> (role c = PQWIRE_ROLE_SERVER \<and> \<not> startup_seen c)" "rd32_be p 1 = Some n"
    "4 \<le> unat n" "unat n \<le> max_message_size c" "1 + unat n \<le> length p"
    "handle_message c (hd p) 5 (take (unat n - 4) (drop 5 p)) = Some c'"
    "clean c' (drop (1 + unat n) p)"
  shows "clean c p"
  using assms by (subst clean.simps) (auto simp: bad_header_def frame_step_def frame_typed_def)

lemma feed_input_stuck:
  assumes wf: "wf_ctx c" "ctx_ok c" "role c = PQWIRE_ROLE_CLIENT" "pending_input c = []"
    "max_message_size c < 2 ^ 32 - 1" "can_grow E"
    and d: "length d = 2 ^ 32" "take 4 (tl d) = [255, 255, 255, 255]"
  shows "pqwire_feed_input E c (Some d) = None"
proof -
  have "reserve_input E c (length d) \<noteq> None"
    using wf(6) by (auto simp: reserve_input_def can_grow_def Let_def)
  then obtain c1 where r: "reserve_input E c (length d) = Some c1" by blast
  note c1 = reserve_input_ok [OF wf(1) r]
  let ?c = "c1\<lparr>input_buf := d @ drop (length d) (input_buf c1), input_len := length d\<rparr>"
  have l: "input_len c = 0" using wf(1,4) length_pending [of c] by (simp add: wf_ctx_def)
  have b: "length d \<le> length (input_buf c1)" "length (input_buf c1) = input_cap c1"
    using c1(1,4) l by (auto simp: wf_defs)
  have f: "role c1 = role c" "max_message_size c1 = max_message_size c"
    using r by (auto simp: reserve_input_def Let_def split: if_splits)
  obtain t rest where "d = t # 255 # 255 # 255 # 255 # rest"
  proof -
    obtain t r where "d = t # r" using d(1) by (cases d) auto
    moreover from this have "r = [255, 255, 255, 255] @ drop 4 r"
      using d(2) by (metis append_take_drop_id list.sel(3))
    ultimately show thesis using that by auto
  qed
  then have "rd32_be (d @ drop (length d) (input_buf c1)) 1 = Some (- 1)"
    by (simp add: rd32_be_def peek_def)
  then have "stuck ?c"
    using wf f b c1(1) d(1) by (simp add: stuck_def wf_ctx_input)
  then have "feed_loop ?c = None" by (rule stuck_diverges)
  then show ?thesis
    using wf(2) r b l c1(3) by (simp add: pqwire_feed_input_def)
qed

section \<open>Properties\<close>

text \<open>
  C1. \<open>pqwire_feed_input\<close> is total and memory safe: on any well-formed context and any bytes
  that keep the buffer under 4 GiB, the call returns, touches nothing outside its objects,
  reports either all of the bytes or (when the buffer cannot grow) none, and leaves a
  well-formed live context.
\<close>

theorem feed_input_total:
  assumes "wf_ctx c" "ctx_ok c" "input_len c + length d < 2 ^ 32"
  shows "\<exists>n c'. pqwire_feed_input E c (Some d) = Some (Some (n, c')) \<and> wf_ctx c' \<and> ctx_ok c' \<and>
     (n = length d \<or> n = 0 \<and> c' = c)"
proof (cases "reserve_input E c (length d)")
  case None
  then show ?thesis using assms feed_input_refused by simp
next
  case (Some c1)
  then show ?thesis using feed_input_runs [OF assms Some] by auto
qed

theorem feed_input_total_witness:
  "\<exists>n c'. pqwire_feed_input roomy_env (fresh_ctx PQWIRE_ROLE_SERVER) (Some [0, 0, 0, 3, 1, 2]) =
       Some (Some (n, c')) \<and> wf_ctx c' \<and> ctx_ok c' \<and>
       (n = length [0, 0, 0, 3, 1, 2 :: byte] \<or> n = 0 \<and> c' = fresh_ctx PQWIRE_ROLE_SERVER)"
  by (rule feed_input_total) simp_all



text \<open>
  C15. Chunking does not matter: a stream without malformed headers, fed in any pieces, leaves
  the same context (events, protocol state, scratch buffers, output) and the same pending
  bytes as the whole stream fed at once, as long as the buffer need not grow.
\<close>

theorem feed_chunks_equal_whole:
  assumes "ds \<noteq> []" "wf_ctx c" "ctx_ok c" "input_len c + length (concat ds) \<le> input_cap c"
    "input_cap c < 2 ^ 32" "clean (core c) (pending_input c @ concat ds)"
  shows "\<exists>c' c''. feed_all E c ds = Some (Some c') \<and>
     pqwire_feed_input E c (Some (concat ds)) = Some (Some (length (concat ds), c'')) \<and>
     core c' = core c'' \<and> pending_input c' = pending_input c''"
proof -
  have "reserve_input E c (length (concat ds)) = Some c" using assms(4) by (simp add: reserve_input_def)
  moreover have "input_len c + length (concat ds) < 2 ^ 32" using assms(4,5) by (rule le_less_trans)
  ultimately obtain c'' where
    "pqwire_feed_input E c (Some (concat ds)) = Some (Some (length (concat ds), c''))"
    "frame_run (core c) (pending_input c @ concat ds) = Some (core c'', pending_input c'')"
    using feed_input_runs [OF assms(2,3)] by blast
  moreover obtain c' where "feed_all E c ds = Some (Some c')"
    "frame_run (core c) (pending_input c @ concat ds) = Some (core c', pending_input c')"
    using feed_all_run [OF assms, of E] by blast
  ultimately show ?thesis by auto
qed

theorem feed_chunks_equal_whole_witness:
  "\<exists>c' c''. feed_all roomy_env (fresh_ctx PQWIRE_ROLE_CLIENT) [[90, 0, 0], [], [0, 5, 73]] = Some (Some c') \<and>
     pqwire_feed_input roomy_env (fresh_ctx PQWIRE_ROLE_CLIENT) (Some (concat [[90, 0, 0], [], [0, 5, 73]])) =
       Some (Some (length (concat [[90, 0, 0], [], [0, 5, 73 :: byte]]), c'')) \<and>
     core c' = core c'' \<and> pending_input c' = pending_input c''"
proof -
  have "safe_step (core (fresh_ctx PQWIRE_ROLE_CLIENT)) (handle_message (core (fresh_ctx PQWIRE_ROLE_CLIENT)) 90 5 [73])"
    by (intro handle_message_safe wf_core) simp
  then obtain c' where h:
    "handle_message (core (fresh_ctx PQWIRE_ROLE_CLIENT)) 90 5 [73] = Some c'"
    by (auto simp: safe_step_def)
  have "clean (core (fresh_ctx PQWIRE_ROLE_CLIENT)) [90, 0, 0, 0, 5, 73]"
    by (rule clean_typed [where n = 5 and c' = c']) (simp_all add: rd32_be_def clean_short h)
  then show ?thesis by (intro feed_chunks_equal_whole) simp_all
qed

text \<open>
  C38. The loop does not return on every input: with 4 GiB in the buffer, a typed message
  whose length field is \<open>0xFFFFFFFF\<close> is never taken off it, because \<open>1 + mlen\<close> wraps to 0.
\<close>

theorem feed_input_diverges:
  assumes "wf_ctx c" "ctx_ok c" "role c = PQWIRE_ROLE_CLIENT" "pending_input c = []"
    "max_message_size c < 2 ^ 32 - 1" "can_grow E"
    "length d = 2 ^ 32" "take 4 (tl d) = [255, 255, 255, 255]"
  shows "pqwire_feed_input E c (Some d) = None"
  using assms by (rule feed_input_stuck)


theorem feed_input_diverges_witness:
  "pqwire_feed_input roomy_env (fresh_ctx PQWIRE_ROLE_CLIENT)
     (Some (90 # 255 # 255 # 255 # 255 # replicate (2 ^ 32 - 5) 0)) = None"
  by (rule feed_input_diverges) simp_all

end
