(* ===== verification/Senders.thy ===== *)
theory Senders
  imports Context
begin

text \<open>
  The serialisers of \<open>src/src/pqwire.c\<close> (lines 934-1427): the frontend and backend
  \<open>pqwire_send_*\<close> functions. Each builds its message body in a fixed or allocated buffer
  with a cursor \<open>p\<close> and hands it to \<open>emit_msg\<close>; \<open>put cap acc bs\<close> is the store at the
  cursor of a buffer of \<open>cap\<close> bytes, and a store past its end is a fault (\<open>None\<close>).

  A \<open>const char *\<close> argument is \<open>None\<close> for \<open>NULL\<close> and otherwise the bytes before its
  NUL. An array argument is \<open>None\<close> for \<open>NULL\<close> and otherwise its elements, whose number
  need not agree with the count passed beside it: an element read beyond the end is a fault.
  The result pairs the C return value with the context.
\<close>

section \<open>Arguments\<close>

definition c_str :: "bytes option \<Rightarrow> bytes" where
  "c_str s = (case s of None \<Rightarrow> [] | Some s \<Rightarrow> s)"

text \<open>\<open>arr ? arr[i] : dflt\<close>.\<close>

definition arg_at :: "'v \<Rightarrow> 'v list option \<Rightarrow> nat \<Rightarrow> 'v option" where
  "arg_at dflt arr i = (case arr of None \<Rightarrow> Some dflt | Some xs \<Rightarrow> peek xs i)"

text \<open>\<open>for (; i < n; i++) { enc(buf + p, arr ? arr[i] : dflt); p += w; }\<close>.\<close>

function put_array ::
  "nat \<Rightarrow> ('v \<Rightarrow> bytes) \<Rightarrow> 'v \<Rightarrow> 'v list option \<Rightarrow> nat \<Rightarrow> nat \<Rightarrow> bytes \<Rightarrow> bytes option"
where
  "put_array cap enc dflt arr i n acc =
     (if i < n
      then case arg_at dflt arr i of
             None \<Rightarrow> None
           | Some v \<Rightarrow>
               (case put cap acc (enc v) of
                  None \<Rightarrow> None
                | Some acc \<Rightarrow> put_array cap enc dflt arr (Suc i) n acc)
      else Some acc)"
  by pat_completeness auto
termination
  by (relation "measure (\<lambda>(cap, enc, dflt, arr, i, n, acc). n - i)") auto

declare put_array.simps [simp del]

section \<open>Frontend messages\<close>

definition pqwire_send_startup ::
  "env \<Rightarrow> pqwire_ctx \<Rightarrow> bytes option \<Rightarrow> bytes option \<Rightarrow> (int \<times> pqwire_ctx) option" where
  "pqwire_send_startup E c user database =
     (if \<not> ctx_ok c \<or> role c \<noteq> PQWIRE_ROLE_CLIENT then Some (- 1, c)
      else do {
        let user = c_str user;
        let database = c_str database;
        let buf = fresh_block E 4;
        buf \<leftarrow> put 512 buf (wr32_be PQ_PROTO_3_0);
        buf \<leftarrow> put 512 buf (text_of ''user'' @ [0]);
        if length buf + (length user + 1) \<ge> 512 then Some (- 1, c)
        else do {
          buf \<leftarrow> put 512 buf (user @ [0]);
          buf \<leftarrow> put 512 buf (text_of ''database'' @ [0]);
          if length buf + (length database + 1) + 1 \<ge> 512 then Some (- 1, c)
          else do {
            buf \<leftarrow> put 512 buf (database @ [0]);
            buf \<leftarrow> put 512 buf [0];
            buf \<leftarrow> poke buf 0 (wr32_be (of_nat (length buf)));
            c \<leftarrow> append_output E c buf;
            Some (0, c)
          }
        }
      })"

definition pqwire_send_query :: "env \<Rightarrow> pqwire_ctx \<Rightarrow> bytes option \<Rightarrow> (int \<times> pqwire_ctx) option" where
  "pqwire_send_query E c sql =
     (case sql of
        None \<Rightarrow> Some (- 1, c)
      | Some sql \<Rightarrow>
          if \<not> ctx_ok c then Some (- 1, c) else emit_msg E c (ascii (CHR ''Q'')) (sql @ [0]))"

definition pqwire_send_call :: "env \<Rightarrow> pqwire_ctx \<Rightarrow> bytes option \<Rightarrow> (int \<times> pqwire_ctx) option" where
  "pqwire_send_call E c procedure =
     (case procedure of
        None \<Rightarrow> Some (- 1, c)
      | Some procedure \<Rightarrow>
          let (written, sql) = snprintf 512 (text_of ''CALL '' @ procedure)
          in pqwire_send_query E c (Some sql))"

text \<open>The messages without a body: Terminate, Sync, Flush and the four completions.\<close>

definition emit_empty :: "env \<Rightarrow> pqwire_ctx \<Rightarrow> byte \<Rightarrow> (int \<times> pqwire_ctx) option" where
  "emit_empty E c type = (if \<not> ctx_ok c then Some (- 1, c) else emit_msg E c type [])"

definition pqwire_send_terminate :: "env \<Rightarrow> pqwire_ctx \<Rightarrow> (int \<times> pqwire_ctx) option" where
  "pqwire_send_terminate E c = emit_empty E c (ascii (CHR ''X''))"

definition pqwire_send_parse ::
  "env \<Rightarrow> pqwire_ctx \<Rightarrow> bytes option \<Rightarrow> bytes option \<Rightarrow> u32 list option \<Rightarrow> u16 \<Rightarrow>
   (int \<times> pqwire_ctx) option" where
  "pqwire_send_parse E c statement query param_type_oids n_param_types =
     (case query of
        None \<Rightarrow> Some (- 1, c)
      | Some query \<Rightarrow>
          if \<not> ctx_ok c then Some (- 1, c)
          else do {
            let statement = c_str statement;
            let cap = PQWIRE_MAX_QUERY_LEN + 256;
            if (length statement + 1) + (length query + 1) + 2 + unat n_param_types * 4 > cap
            then Some (- 1, c)
            else do {
              buf \<leftarrow> put cap [] (statement @ [0]);
              buf \<leftarrow> put cap buf (query @ [0]);
              buf \<leftarrow> put cap buf (wr16_be n_param_types);
              buf \<leftarrow> put_array cap wr32_be 0 param_type_oids 0 (unat n_param_types) buf;
              emit_msg E c (ascii (CHR ''P'')) buf
            }
          })"

subsection \<open>Bind\<close>

text \<open>
  Parameter \<open>i\<close> copied at the cursor: \<open>plen\<close> bytes of \<open>param_values[i]\<close>, or whatever the
  heap block holds there when there is no value.
\<close>

definition put_value ::
  "env \<Rightarrow> nat \<Rightarrow> bytes option list option \<Rightarrow> nat \<Rightarrow> nat \<Rightarrow> bytes \<Rightarrow> bytes option" where
  "put_value E cap vals i need acc = do {
     v \<leftarrow> arg_at None vals i;
     bs \<leftarrow> (case v of None \<Rightarrow> Some (map (junk E) [length acc..<length acc + need])
            | Some b \<Rightarrow> mem_read b 0 need);
     put cap acc bs
   }"

text \<open>The capacity after making room for \<open>need\<close> bytes; \<open>None\<close> when \<open>realloc\<close> fails.\<close>

definition grow_cap :: "env \<Rightarrow> nat \<Rightarrow> nat \<Rightarrow> nat \<Rightarrow> nat option" where
  "grow_cap E cap p need =
     (if p + need > cap
      then if alloc_ok E (AllocBytes (p + need + 1024)) then Some (p + need + 1024) else None
      else Some cap)"

text \<open>
  The loop over the parameters (lines 1085-1109): the buffer and its capacity;
  \<open>Some None\<close> is \<open>return -1\<close>.
\<close>

function bind_values ::
  "env \<Rightarrow> u32 list option \<Rightarrow> bytes option list option \<Rightarrow> nat \<Rightarrow> nat \<Rightarrow> bytes \<Rightarrow> nat \<Rightarrow>
   (bytes \<times> nat) option option"
where
  "bind_values E lens vals i n acc cap =
     (if i < n
      then case arg_at (- 1) lens i of
             None \<Rightarrow> None
           | Some plen \<Rightarrow>
               if length acc + 4 > cap then Some None
               else (case put cap acc (wr32_be plen) of
                       None \<Rightarrow> None
                     | Some acc \<Rightarrow>
                         if sint plen > 0
                         then (case grow_cap E cap (length acc) (unat plen) of
                                 None \<Rightarrow> Some None
                               | Some cap \<Rightarrow>
                                   (case put_value E cap vals i (unat plen) acc of
                                      None \<Rightarrow> None
                                    | Some acc \<Rightarrow> bind_values E lens vals (Suc i) n acc cap))
                         else bind_values E lens vals (Suc i) n acc cap)
      else Some (Some (acc, cap)))"
  by pat_completeness auto
termination
  by (relation "measure (\<lambda>(E, lens, vals, i, n, acc, cap). n - i)") auto

declare bind_values.simps [simp del]

definition pqwire_send_bind ::
  "env \<Rightarrow> pqwire_ctx \<Rightarrow> bytes option \<Rightarrow> bytes option \<Rightarrow> u16 list option \<Rightarrow> u16 \<Rightarrow>
   u32 list option \<Rightarrow> bytes option list option \<Rightarrow> u16 \<Rightarrow> u16 list option \<Rightarrow> u16 \<Rightarrow>
   (int \<times> pqwire_ctx) option" where
  "pqwire_send_bind E c portal statement param_formats n_param_formats
       param_lengths param_values n_params result_formats n_result_formats =
     (if \<not> ctx_ok c then Some (- 1, c)
      else do {
        let cap = 64 + unat n_params * 256;
        let portal = c_str portal;
        let statement = c_str statement;
        if \<not> alloc_ok E (AllocBytes cap) then Some (- 1, c)
        else if (length portal + 1) + (length statement + 1) > cap then Some (- 1, c)
        else do {
          buf \<leftarrow> put cap [] (portal @ [0]);
          buf \<leftarrow> put cap buf (statement @ [0]);
          if length buf + 2 + unat n_param_formats * 2 > cap then Some (- 1, c)
          else do {
            buf \<leftarrow> put cap buf (wr16_be n_param_formats);
            buf \<leftarrow> put_array cap wr16_be 0 param_formats 0 (unat n_param_formats) buf;
            if length buf + 2 > cap then Some (- 1, c)
            else do {
              buf \<leftarrow> put cap buf (wr16_be n_params);
              r \<leftarrow> bind_values E param_lengths param_values 0 (unat n_params) buf cap;
              case r of
                None \<Rightarrow> Some (- 1, c)
              | Some (buf, cap) \<Rightarrow>
                  if length buf + 2 + unat n_result_formats * 2 > cap then Some (- 1, c)
                  else do {
                    buf \<leftarrow> put cap buf (wr16_be n_result_formats);
                    buf \<leftarrow> put_array cap wr16_be 0 result_formats 0 (unat n_result_formats) buf;
                    emit_msg E c (ascii (CHR ''B'')) buf
                  }
            }
          }
        }
      })"

subsection \<open>Describe, Execute, Close, Sync, Flush\<close>

text \<open>A target byte and a name in a buffer of \<open>PQWIRE_MAX_STMT_NAME + 2\<close> bytes.\<close>

definition send_target_name ::
  "env \<Rightarrow> pqwire_ctx \<Rightarrow> byte \<Rightarrow> byte \<Rightarrow> bytes option \<Rightarrow> (int \<times> pqwire_ctx) option" where
  "send_target_name E c type target name =
     (if \<not> ctx_ok c then Some (- 1, c)
      else do {
        let name = c_str name;
        let cap = PQWIRE_MAX_STMT_NAME + 2;
        if 1 + (length name + 1) > cap then Some (- 1, c)
        else do {
          buf \<leftarrow> put cap [] [target];
          buf \<leftarrow> put cap buf (name @ [0]);
          emit_msg E c type buf
        }
      })"

definition pqwire_send_describe ::
  "env \<Rightarrow> pqwire_ctx \<Rightarrow> byte \<Rightarrow> bytes option \<Rightarrow> (int \<times> pqwire_ctx) option" where
  "pqwire_send_describe E c target name = send_target_name E c (ascii (CHR ''D'')) target name"

definition pqwire_send_execute ::
  "env \<Rightarrow> pqwire_ctx \<Rightarrow> bytes option \<Rightarrow> u32 \<Rightarrow> (int \<times> pqwire_ctx) option" where
  "pqwire_send_execute E c portal max_rows =
     (if \<not> ctx_ok c then Some (- 1, c)
      else do {
        let portal = c_str portal;
        let cap = PQWIRE_MAX_PORTAL_NAME + 8;
        if (length portal + 1) + 4 > cap then Some (- 1, c)
        else do {
          buf \<leftarrow> put cap [] (portal @ [0]);
          buf \<leftarrow> put cap buf (wr32_be max_rows);
          emit_msg E c (ascii (CHR ''E'')) buf
        }
      })"

definition pqwire_send_close ::
  "env \<Rightarrow> pqwire_ctx \<Rightarrow> byte \<Rightarrow> bytes option \<Rightarrow> (int \<times> pqwire_ctx) option" where
  "pqwire_send_close E c target name = send_target_name E c (ascii (CHR ''C'')) target name"

definition pqwire_send_sync :: "env \<Rightarrow> pqwire_ctx \<Rightarrow> (int \<times> pqwire_ctx) option" where
  "pqwire_send_sync E c = emit_empty E c (ascii (CHR ''S''))"

definition pqwire_send_flush :: "env \<Rightarrow> pqwire_ctx \<Rightarrow> (int \<times> pqwire_ctx) option" where
  "pqwire_send_flush E c = emit_empty E c (ascii (CHR ''H''))"

text \<open>\<open>if (f(ctx) != 0) return -1;\<close> and go on.\<close>

definition and_then ::
  "(int \<times> pqwire_ctx) option \<Rightarrow> (pqwire_ctx \<Rightarrow> (int \<times> pqwire_ctx) option) \<Rightarrow> (int \<times> pqwire_ctx) option"
where
  "and_then m f = do { (rc, c) \<leftarrow> m; if rc \<noteq> 0 then Some (- 1, c) else f c }"

definition pqwire_send_unnamed_pipeline ::
  "env \<Rightarrow> pqwire_ctx \<Rightarrow> bytes option \<Rightarrow> u32 list option \<Rightarrow> u16 \<Rightarrow> u16 list option \<Rightarrow> u16 \<Rightarrow>
   u32 list option \<Rightarrow> bytes option list option \<Rightarrow> u16 \<Rightarrow> u16 list option \<Rightarrow> u16 \<Rightarrow> u32 \<Rightarrow>
   (int \<times> pqwire_ctx) option" where
  "pqwire_send_unnamed_pipeline E c query oids n_oids fmts n_fmts lens vals n_params rfmts n_rfmts max_rows =
     and_then (pqwire_send_parse E c (Some []) query oids n_oids) (\<lambda>c.
     and_then (pqwire_send_bind E c (Some []) (Some []) fmts n_fmts lens vals n_params rfmts n_rfmts) (\<lambda>c.
     and_then (pqwire_send_execute E c (Some []) max_rows) (\<lambda>c.
     pqwire_send_sync E c)))"

section \<open>Backend messages\<close>

definition pqwire_send_auth_ok :: "env \<Rightarrow> pqwire_ctx \<Rightarrow> (int \<times> pqwire_ctx) option" where
  "pqwire_send_auth_ok E c =
     (if \<not> ctx_ok c then Some (- 1, c) else emit_msg E c (ascii (CHR ''R'')) (wr32_be 0))"

definition pqwire_send_ready_for_query :: "env \<Rightarrow> pqwire_ctx \<Rightarrow> (int \<times> pqwire_ctx) option" where
  "pqwire_send_ready_for_query E c =
     (if \<not> ctx_ok c then Some (- 1, c)
      else emit_msg E (c\<lparr>proto_state := PROTO_STATE_READY\<rparr>) (ascii (CHR ''Z'')) [ascii (CHR ''I'')])"

text \<open>The loop over the columns (lines 1257-1277), in a buffer of 2048 bytes.\<close>

function put_columns ::
  "bytes pq_column_desc list \<Rightarrow> nat \<Rightarrow> nat \<Rightarrow> bytes \<Rightarrow> bytes option option" where
  "put_columns cols i n acc =
     (if i < n
      then case peek cols i of
             None \<Rightarrow> None
           | Some col \<Rightarrow>
               let name = c_str (cd_name col) in
               if length acc + (length name + 1) + 18 > 2048 then Some None
               else (case put 2048 acc
                            (name @ [0] @ wr32_be 0 @ wr16_be 0 @ wr32_be (cd_oid col) @ wr16_be 4 @
                             wr32_be (- 1) @ wr16_be (cd_format col)) of
                       None \<Rightarrow> None
                     | Some acc \<Rightarrow> put_columns cols (Suc i) n acc)
      else Some (Some acc))"
  by pat_completeness auto
termination
  by (relation "measure (\<lambda>(cols, i, n, acc). n - i)") auto

declare put_columns.simps [simp del]

definition pqwire_send_row_description ::
  "env \<Rightarrow> pqwire_ctx \<Rightarrow> bytes pq_column_desc list option \<Rightarrow> nat \<Rightarrow> (int \<times> pqwire_ctx) option" where
  "pqwire_send_row_description E c cols n_cols =
     (case cols of
        None \<Rightarrow> Some (- 1, c)
      | Some cols \<Rightarrow>
          if \<not> ctx_ok c then Some (- 1, c)
          else do {
            let n_cols = min n_cols PQWIRE_MAX_ROW_COLUMNS;
            buf \<leftarrow> put 2048 [] (wr16_be (of_nat n_cols));
            r \<leftarrow> put_columns cols 0 n_cols buf;
            case r of
              None \<Rightarrow> Some (- 1, c)
            | Some buf \<Rightarrow> emit_msg E c (ascii (CHR ''T'')) buf
          })"

text \<open>\<open>data\<close> is a block of at least \<open>len\<close> bytes, or \<open>NULL\<close>.\<close>

definition pqwire_send_data_row ::
  "env \<Rightarrow> pqwire_ctx \<Rightarrow> bytes option \<Rightarrow> nat \<Rightarrow> (int \<times> pqwire_ctx) option" where
  "pqwire_send_data_row E c data len =
     (if \<not> ctx_ok c then Some (- 1, c)
      else do {
        buf \<leftarrow> put 4096 [] (wr16_be 1);
        case data of
          None \<Rightarrow> do {
            buf \<leftarrow> put 4096 buf (wr32_be (- 1));
            emit_msg E c (ascii (CHR ''D'')) buf
          }
        | Some data \<Rightarrow>
            if length buf + 4 + len > 4096 then Some (- 1, c)
            else do {
              buf \<leftarrow> put 4096 buf (wr32_be (of_nat len));
              bs \<leftarrow> mem_read data 0 len;
              buf \<leftarrow> put 4096 buf bs;
              emit_msg E c (ascii (CHR ''D'')) buf
            }
      })"

text \<open>
  The loop of \<open>pqwire_send_data_row_multi\<close> (lines 1326-1348). Unlike Bind, a column with a
  positive length and no value contributes its length field and no bytes.
\<close>

function row_values ::
  "env \<Rightarrow> u32 list option \<Rightarrow> bytes option list option \<Rightarrow> nat \<Rightarrow> nat \<Rightarrow> bytes \<Rightarrow> nat \<Rightarrow>
   (bytes \<times> nat) option option"
where
  "row_values E lens vals i n acc cap =
     (if i < n
      then case arg_at (- 1) lens i of
             None \<Rightarrow> None
           | Some plen \<Rightarrow>
               if length acc + 4 > cap then Some None
               else (case put cap acc (wr32_be plen) of
                       None \<Rightarrow> None
                     | Some acc \<Rightarrow>
                         if sint plen > 0
                         then (case arg_at None vals i of
                                 None \<Rightarrow> None
                               | Some None \<Rightarrow> row_values E lens vals (Suc i) n acc cap
                               | Some (Some b) \<Rightarrow>
                                   (case grow_cap E cap (length acc) (unat plen) of
                                      None \<Rightarrow> Some None
                                    | Some cap \<Rightarrow>
                                        (case Option.bind (mem_read b 0 (unat plen)) (put cap acc) of
                                           None \<Rightarrow> None
                                         | Some acc \<Rightarrow> row_values E lens vals (Suc i) n acc cap)))
                         else row_values E lens vals (Suc i) n acc cap)
      else Some (Some (acc, cap)))"
  by pat_completeness auto
termination
  by (relation "measure (\<lambda>(E, lens, vals, i, n, acc, cap). n - i)") auto

declare row_values.simps [simp del]

definition pqwire_send_data_row_multi ::
  "env \<Rightarrow> pqwire_ctx \<Rightarrow> u32 list option \<Rightarrow> bytes option list option \<Rightarrow> u16 \<Rightarrow> (int \<times> pqwire_ctx) option"
where
  "pqwire_send_data_row_multi E c lengths values n_cols =
     (if \<not> ctx_ok c then Some (- 1, c)
      else do {
        let cap = 64 + unat n_cols * 256;
        if \<not> alloc_ok E (AllocBytes cap) then Some (- 1, c)
        else do {
          buf \<leftarrow> put cap [] (wr16_be n_cols);
          r \<leftarrow> row_values E lengths values 0 (unat n_cols) buf cap;
          case r of
            None \<Rightarrow> Some (- 1, c)
          | Some (buf, cap) \<Rightarrow> emit_msg E c (ascii (CHR ''D'')) buf
        }
      })"

definition pqwire_send_command_complete ::
  "env \<Rightarrow> pqwire_ctx \<Rightarrow> bytes option \<Rightarrow> (int \<times> pqwire_ctx) option" where
  "pqwire_send_command_complete E c tag =
     (case tag of
        None \<Rightarrow> Some (- 1, c)
      | Some tag \<Rightarrow>
          if \<not> ctx_ok c then Some (- 1, c) else emit_msg E c (ascii (CHR ''C'')) (tag @ [0]))"

text \<open>The macro \<open>PUT_FIELD\<close> on a buffer of 512 bytes; \<open>Some None\<close> is \<open>return -1\<close>.\<close>

definition put_field :: "bytes \<Rightarrow> byte \<Rightarrow> bytes \<Rightarrow> bytes option option" where
  "put_field buf cd str =
     (if length buf + 1 + (length str + 1) \<ge> 512 then Some None
      else do {
        buf \<leftarrow> put 512 buf [cd];
        buf \<leftarrow> put 512 buf (str @ [0]);
        Some (Some buf)
      })"

fun put_fields :: "bytes \<Rightarrow> (byte \<times> bytes) list \<Rightarrow> bytes option option" where
  "put_fields buf [] = Some (Some buf)"
| "put_fields buf ((cd, str) # fs) =
     (case put_field buf cd str of
        None \<Rightarrow> None
      | Some None \<Rightarrow> Some None
      | Some (Some buf) \<Rightarrow> put_fields buf fs)"

definition pqwire_send_error_response ::
  "env \<Rightarrow> pqwire_ctx \<Rightarrow> bytes option \<Rightarrow> bytes option \<Rightarrow> bytes option \<Rightarrow> (int \<times> pqwire_ctx) option" where
  "pqwire_send_error_response E c sev sqlstate msg =
     (if \<not> ctx_ok c then Some (- 1, c)
      else do {
        let sev = (case sev of None \<Rightarrow> text_of ''ERROR'' | Some s \<Rightarrow> s);
        let sqlstate = (case sqlstate of None \<Rightarrow> text_of ''XX000'' | Some s \<Rightarrow> s);
        let msg = (case msg of None \<Rightarrow> text_of ''error'' | Some s \<Rightarrow> s);
        r \<leftarrow> put_fields [] [(ascii (CHR ''S''), sev), (ascii (CHR ''C''), sqlstate),
                            (ascii (CHR ''M''), msg)];
        case r of
          None \<Rightarrow> Some (- 1, c)
        | Some buf \<Rightarrow>
            if length buf + 1 \<ge> 512 then Some (- 1, c)
            else do {
              buf \<leftarrow> put 512 buf [0];
              emit_msg E c (ascii (CHR ''E'')) buf
            }
      })"

definition pqwire_send_parse_complete :: "env \<Rightarrow> pqwire_ctx \<Rightarrow> (int \<times> pqwire_ctx) option" where
  "pqwire_send_parse_complete E c = emit_empty E c (ascii (CHR ''1''))"

definition pqwire_send_bind_complete :: "env \<Rightarrow> pqwire_ctx \<Rightarrow> (int \<times> pqwire_ctx) option" where
  "pqwire_send_bind_complete E c = emit_empty E c (ascii (CHR ''2''))"

definition pqwire_send_close_complete :: "env \<Rightarrow> pqwire_ctx \<Rightarrow> (int \<times> pqwire_ctx) option" where
  "pqwire_send_close_complete E c = emit_empty E c (ascii (CHR ''3''))"

definition pqwire_send_no_data :: "env \<Rightarrow> pqwire_ctx \<Rightarrow> (int \<times> pqwire_ctx) option" where
  "pqwire_send_no_data E c = emit_empty E c (ascii (CHR ''n''))"

section \<open>The wire format\<close>

lemma c_str_simps [simp]: "c_str None = []" "c_str (Some s) = s"
  by (simp_all add: c_str_def)

text \<open>
  What the messages look like on the wire, independently of how they are built: a typed
  message, a parameter or column value (\<open>None\<close> is SQL NULL), and the bodies.
\<close>

definition wire_msg :: "byte \<Rightarrow> bytes \<Rightarrow> bytes" where
  "wire_msg t body = t # wr32_be (of_nat (length body + 4)) @ body"

definition wire_str :: "bytes \<Rightarrow> bytes" where
  "wire_str s = s @ [0]"

fun value_length :: "bytes option \<Rightarrow> u32" where
  "value_length None = - 1"
| "value_length (Some d) = of_nat (length d)"

definition wire_value :: "bytes option \<Rightarrow> bytes" where
  "wire_value v = wr32_be (value_length v) @ c_str v"

definition wire_values :: "bytes option list \<Rightarrow> bytes" where
  "wire_values vs = concat (map wire_value vs)"

definition wire_counted :: "('v \<Rightarrow> bytes) \<Rightarrow> 'v list \<Rightarrow> bytes" where
  "wire_counted enc vs = wr16_be (of_nat (length vs)) @ concat (map enc vs)"

definition parse_body :: "bytes \<Rightarrow> bytes \<Rightarrow> u32 list \<Rightarrow> bytes" where
  "parse_body statement query oids =
     wire_str statement @ wire_str query @ wire_counted wr32_be oids"

definition bind_body ::
  "bytes \<Rightarrow> bytes \<Rightarrow> u16 list \<Rightarrow> bytes option list \<Rightarrow> u16 list \<Rightarrow> bytes" where
  "bind_body portal statement fmts vs rfmts =
     wire_str portal @ wire_str statement @ wire_counted wr16_be fmts @
     wire_counted wire_value vs @ wire_counted wr16_be rfmts"

definition target_body :: "byte \<Rightarrow> bytes \<Rightarrow> bytes" where
  "target_body target name = target # wire_str name"

definition execute_body :: "bytes \<Rightarrow> u32 \<Rightarrow> bytes" where
  "execute_body portal max_rows = wire_str portal @ wr32_be max_rows"

definition wire_column :: "bytes pq_column_desc \<Rightarrow> bytes" where
  "wire_column col =
     wire_str (c_str (cd_name col)) @ wr32_be 0 @ wr16_be 0 @ wr32_be (cd_oid col) @ wr16_be 4 @
     wr32_be (- 1) @ wr16_be (cd_format col)"

definition row_desc_body :: "bytes pq_column_desc list \<Rightarrow> bytes" where
  "row_desc_body cols = wire_counted wire_column cols"

definition row_body :: "bytes option list \<Rightarrow> bytes" where
  "row_body vs = wire_counted wire_value vs"

definition wire_fields :: "(byte \<times> bytes) list \<Rightarrow> bytes" where
  "wire_fields fs = concat (map (\<lambda>(t, s). t # wire_str s) fs)"

definition error_body :: "bytes \<Rightarrow> bytes \<Rightarrow> bytes \<Rightarrow> bytes" where
  "error_body sev sqlstate msg =
     wire_fields [(ascii (CHR ''S''), sev), (ascii (CHR ''C''), sqlstate), (ascii (CHR ''M''), msg)] @ [0]"

definition startup_body :: "bytes \<Rightarrow> bytes \<Rightarrow> bytes" where
  "startup_body user database =
     wr32_be PQ_PROTO_3_0 @ wire_str (text_of ''user'') @ wire_str user @
     wire_str (text_of ''database'') @ wire_str database @ [0]"

definition startup_msg :: "bytes \<Rightarrow> bytes \<Rightarrow> bytes" where
  "startup_msg user database =
     wr32_be (of_nat (length (startup_body user database) + 4)) @ startup_body user database"

lemmas wire_defs =
  wire_msg_def wire_str_def wire_value_def wire_values_def wire_counted_def parse_body_def
  bind_body_def target_body_def execute_body_def wire_column_def row_desc_body_def row_body_def
  wire_fields_def error_body_def startup_body_def startup_msg_def

lemma length_wire [wire_simps]:
  "length (wire_str s) = Suc (length s)"
  "length (wire_value v) = 4 + length (c_str v)"
  "length (wire_column col) = length (c_str (cd_name col)) + 19"
  "length (wire_counted enc vs) = 2 + length (concat (map enc vs))"
  by (simp_all add: wire_defs)

section \<open>What a sender does\<close>

text \<open>
  \<open>sends E c r bs\<close>: the call \<open>r\<close> on \<open>c\<close> returns 0, changes nothing but the output buffer,
  and appends exactly \<open>bs\<close> to it when the buffer can grow.
\<close>

definition sends :: "env \<Rightarrow> pqwire_ctx \<Rightarrow> (int \<times> pqwire_ctx) option \<Rightarrow> bytes \<Rightarrow> bool" where
  "sends E c r bs \<longleftrightarrow>
     (\<exists>c'. r = Some (0, c') \<and> wf_output c' \<and> output_frame c c' \<and>
        (can_grow E \<longrightarrow> output_bytes c' = output_bytes c @ bs))"

lemma emit_msg_sends: "wf_output c \<Longrightarrow> sends E c (emit_msg E c t p) (wire_msg t p)"
  using emit_msg_ok [of c E t p] by (simp add: sends_def wire_msg_def)

lemma append_output_sends:
  assumes "wf_output c"
  shows "sends E c (Option.bind (append_output E c bs) (\<lambda>c. Some (0, c))) bs"
  using append_output_ok [OF assms, of E bs] by (auto simp: sends_def)

lemma sends_wf: "sends E c (Some (rc, c')) bs \<Longrightarrow> wf_ctx c \<Longrightarrow> wf_ctx c' \<and> ctx_ok c' = ctx_ok c"
  by (auto simp: sends_def ctx_ok_def output_frameD intro: output_frame_wf)

lemma sends_then:
  assumes "sends E c m bs" "wf_ctx c"
    and "\<And>c'. wf_ctx c' \<Longrightarrow> output_frame c c' \<Longrightarrow> sends E c' (f c') bs'"
  shows "sends E c (and_then m f) (bs @ bs')"
proof -
  obtain c' where c': "m = Some (0, c')" "wf_output c'" "output_frame c c'"
    "can_grow E \<longrightarrow> output_bytes c' = output_bytes c @ bs"
    using assms(1) by (auto simp: sends_def)
  have "wf_ctx c'" using output_frame_wf [OF assms(2) c'(3,2)] .
  from assms(3) [OF this c'(3)] c' show ?thesis
    by (auto simp: sends_def and_then_def intro: output_frame_trans)
qed

section \<open>The loops\<close>

definition arg_list :: "'v \<Rightarrow> 'v list option \<Rightarrow> nat \<Rightarrow> 'v list" where
  "arg_list dflt arr n = (case arr of None \<Rightarrow> replicate n dflt | Some xs \<Rightarrow> take n xs)"

definition holds :: "nat \<Rightarrow> 'v list option \<Rightarrow> bool" where
  "holds n arr \<longleftrightarrow> (\<forall>xs. arr = Some xs \<longrightarrow> n \<le> length xs)"

lemma holds_simps [simp]: "holds n None" "holds n (Some xs) = (n \<le> length xs)"
  by (simp_all add: holds_def)

lemma length_arg_list [simp]: "holds n arr \<Longrightarrow> length (arg_list dflt arr n) = n"
  by (auto simp: arg_list_def holds_def split: option.split)

lemma arg_at_list: "holds n arr \<Longrightarrow> i < n \<Longrightarrow> arg_at dflt arr i = Some (arg_list dflt arr n ! i)"
  by (cases arr) (auto simp: arg_at_def arg_list_def holds_def)

context field_codec
begin

lemma put_array_encs:
  assumes "holds n arr" "length acc + w * (n - i) \<le> cap" "i \<le> n"
  shows "put_array cap enc dflt arr i n acc =
     Some (acc @ concat (map enc (drop i (arg_list dflt arr n))))"
  using assms
proof (induction "n - i" arbitrary: i acc)
  case 0
  then show ?case by (subst put_array.simps) simp
next
  case (Suc k)
  then have i: "i < n" "k = n - Suc i" by simp_all
  let ?v = "arg_list dflt arr n ! i"
  have "n - i = Suc (n - Suc i)" using i by simp
  with Suc.prems(2) have r: "length acc + (w + w * (n - Suc i)) \<le> cap" by simp
  have "put_array cap enc dflt arr i n acc = put_array cap enc dflt arr (Suc i) n (acc @ enc ?v)"
    using i(1) Suc.prems(1) r by (subst put_array.simps) (simp add: arg_at_list enc_length)
  also have "\<dots> = Some ((acc @ enc ?v) @ concat (map enc (drop (Suc i) (arg_list dflt arr n))))"
    by (rule Suc.hyps(1)) (use i Suc.prems r in \<open>auto simp: enc_length\<close>)
  finally have "put_array cap enc dflt arr i n acc =
      Some (acc @ enc ?v @ concat (map enc (drop (Suc i) (arg_list dflt arr n))))" by simp
  moreover have "drop i (arg_list dflt arr n) = ?v # drop (Suc i) (arg_list dflt arr n)"
    using i Suc.prems(1) by (simp add: Cons_nth_drop_Suc)
  ultimately show ?case by simp
qed

lemma put_array_all:
  assumes "holds (unat (n :: u16)) arr" "length acc + w * unat n \<le> cap"
  shows "put_array cap enc dflt arr 0 (unat n) acc =
     Some (acc @ concat (map enc (arg_list dflt arr (unat n))))"
  using put_array_encs [of "unat n" arr acc 0 cap dflt] assms by simp

lemma wire_counted_arg_list:
  "holds (unat (n :: u16)) arr \<Longrightarrow>
   wire_counted enc (arg_list dflt arr (unat n)) = wr16_be n @ concat (map enc (arg_list dflt arr (unat n)))"
  by (simp add: wire_counted_def)

lemma length_arg_encs:
  "holds n arr \<Longrightarrow> length (concat (map enc (arg_list dflt arr n))) = w * n"
  by (simp add: length_encs)

end

text \<open>
  \<open>value_args n lens vals vs\<close>: the C arguments \<open>lens\<close> and \<open>vals\<close> describe the values \<open>vs\<close>
  (a value needs a block only when it is not empty, and the block may be longer).
\<close>

definition value_args ::
  "nat \<Rightarrow> u32 list option \<Rightarrow> bytes option list option \<Rightarrow> bytes option list \<Rightarrow> bool" where
  "value_args n lens vals vs \<longleftrightarrow>
     length vs = n \<and>
     (\<forall>i < n. length (c_str (vs ! i)) < 2 ^ 31 \<and>
        arg_at (- 1) lens i = Some (value_length (vs ! i)) \<and>
        (c_str (vs ! i) \<noteq> [] \<longrightarrow>
          (\<exists>b. arg_at None vals i = Some (Some b) \<and> take (length (c_str (vs ! i))) b = c_str (vs ! i))))"

lemma value_length_positive:
  assumes "length (c_str v) < 2 ^ 31"
  shows "sint (value_length v) > 0 \<longleftrightarrow> c_str v \<noteq> []"
    and "c_str v \<noteq> [] \<Longrightarrow> unat (value_length v) = length (c_str v)"
proof -
  show "sint (value_length v) > 0 \<longleftrightarrow> c_str v \<noteq> []"
  proof (cases v)
    case (Some d)
    with assms sint_of_nat_small32 [of "length d"] show ?thesis by (simp add: c_str_def)
  qed (simp add: c_str_def)
  show "unat (value_length v) = length (c_str v)" if "c_str v \<noteq> []"
  proof (cases v)
    case (Some d)
    with assms show ?thesis by (simp add: c_str_def unat_of_nat_small)
  qed (use that in \<open>simp add: c_str_def\<close>)
qed

lemma value_argsD:
  assumes "value_args n lens vals vs" "i < n"
  shows "arg_at (- 1) lens i = Some (value_length (vs ! i))"
    and "sint (value_length (vs ! i)) > 0 \<longleftrightarrow> c_str (vs ! i) \<noteq> []"
    and "c_str (vs ! i) \<noteq> [] \<Longrightarrow> \<exists>b. arg_at None vals i = Some (Some b) \<and>
      mem_read b 0 (unat (value_length (vs ! i))) = Some (c_str (vs ! i))"
proof -
  have l: "length (c_str (vs ! i)) < 2 ^ 31" using assms by (simp add: value_args_def)
  note v = value_length_positive [OF l]
  show "arg_at (- 1) lens i = Some (value_length (vs ! i))"
    "sint (value_length (vs ! i)) > 0 \<longleftrightarrow> c_str (vs ! i) \<noteq> []"
    using assms v by (simp_all add: value_args_def)
  assume ne: "c_str (vs ! i) \<noteq> []"
  then obtain b where b: "arg_at None vals i = Some (Some b)"
    "take (length (c_str (vs ! i))) b = c_str (vs ! i)"
    using assms unfolding value_args_def by blast
  from b(2) have "length (c_str (vs ! i)) \<le> length b"
    by (metis length_take min.cobounded1)
  with b ne v(2) show "\<exists>b. arg_at None vals i = Some (Some b) \<and>
      mem_read b 0 (unat (value_length (vs ! i))) = Some (c_str (vs ! i))" by auto
qed

lemma wire_values_drop:
  "i < length vs \<Longrightarrow> wire_values (drop i vs) = wire_value (vs ! i) @ wire_values (drop (Suc i) vs)"
  by (simp add: wire_values_def flip: Cons_nth_drop_Suc)

text \<open>Both value loops write the same bytes when all of them fit the buffer.\<close>

lemma bind_values_ok:
  assumes "value_args n lens vals vs" "i \<le> n" "length acc + length (wire_values (drop i vs)) \<le> cap"
  shows "bind_values E lens vals i n acc cap = Some (Some (acc @ wire_values (drop i vs), cap))"
  using assms
proof (induction "n - i" arbitrary: i acc)
  case 0
  then show ?case by (subst bind_values.simps) (simp add: value_args_def wire_values_def)
next
  case (Suc k)
  then have i: "i < n" "k = n - Suc i" "i < length vs" by (simp_all add: value_args_def)
  note d = value_argsD [OF Suc.prems(1) i(1)] and w = wire_values_drop [OF i(3)]
  let ?v = "vs ! i"
  have room: "length acc + (4 + length (c_str ?v)) + length (wire_values (drop (Suc i) vs)) \<le> cap"
    using Suc.prems(3) w by (simp add: wire_simps)
  have IH: "bind_values E lens vals (Suc i) n (acc @ wire_value ?v) cap =
      Some (Some ((acc @ wire_value ?v) @ wire_values (drop (Suc i) vs), cap))"
    by (rule Suc.hyps(1)) (use i Suc.prems(1) room in \<open>auto simp: wire_simps\<close>)
  have "bind_values E lens vals i n acc cap = bind_values E lens vals (Suc i) n (acc @ wire_value ?v) cap"
  proof (cases "c_str ?v = []")
    case True
    then show ?thesis using i(1) d room by (subst bind_values.simps) (simp add: wire_value_def)
  next
    case False
    then obtain b where b: "arg_at None vals i = Some (Some b)"
      "mem_read b 0 (unat (value_length ?v)) = Some (c_str ?v)" using d(3) by blast
    then have l: "unat (value_length ?v) = length (c_str ?v)" using mem_read_SomeD by fastforce
    show ?thesis using False i(1) d(1,2) b room l
      by (subst bind_values.simps) (simp add: wire_value_def grow_cap_def put_value_def)
  qed
  then show ?case using IH w by simp
qed

lemma row_values_ok:
  assumes "value_args n lens vals vs" "i \<le> n" "length acc + length (wire_values (drop i vs)) \<le> cap"
  shows "row_values E lens vals i n acc cap = Some (Some (acc @ wire_values (drop i vs), cap))"
  using assms
proof (induction "n - i" arbitrary: i acc)
  case 0
  then show ?case by (subst row_values.simps) (simp add: value_args_def wire_values_def)
next
  case (Suc k)
  then have i: "i < n" "k = n - Suc i" "i < length vs" by (simp_all add: value_args_def)
  note d = value_argsD [OF Suc.prems(1) i(1)] and w = wire_values_drop [OF i(3)]
  let ?v = "vs ! i"
  have room: "length acc + (4 + length (c_str ?v)) + length (wire_values (drop (Suc i) vs)) \<le> cap"
    using Suc.prems(3) w by (simp add: wire_simps)
  have IH: "row_values E lens vals (Suc i) n (acc @ wire_value ?v) cap =
      Some (Some ((acc @ wire_value ?v) @ wire_values (drop (Suc i) vs), cap))"
    by (rule Suc.hyps(1)) (use i Suc.prems(1) room in \<open>auto simp: wire_simps\<close>)
  have "row_values E lens vals i n acc cap = row_values E lens vals (Suc i) n (acc @ wire_value ?v) cap"
  proof (cases "c_str ?v = []")
    case True
    then show ?thesis using i(1) d room by (subst row_values.simps) (simp add: wire_value_def)
  next
    case False
    then obtain b where b: "arg_at None vals i = Some (Some b)"
      "mem_read b 0 (unat (value_length ?v)) = Some (c_str ?v)" using d(3) by blast
    then have l: "unat (value_length ?v) = length (c_str ?v)" using mem_read_SomeD by fastforce
    show ?thesis using False i(1) d(1,2) b room l
      by (subst row_values.simps) (simp add: wire_value_def grow_cap_def)
  qed
  then show ?case using IH w by simp
qed

lemma put_columns_exact:
  assumes "i \<le> n" "n \<le> length cols"
  shows "put_columns cols i n acc =
     (let bs = acc @ concat (map wire_column (drop i (take n cols)))
      in if i < n \<and> length bs > 2048 then Some None else Some (Some bs))"
  using assms
proof (induction "n - i" arbitrary: i acc)
  case 0
  then show ?case by (subst put_columns.simps) simp
next
  case (Suc k)
  then have i: "i < n" "k = n - Suc i" "i < length cols" by simp_all
  have d: "drop i (take n cols) = cols ! i # drop (Suc i) (take n cols)"
    using i Suc.prems by (subst Cons_nth_drop_Suc [symmetric]) auto
  show ?case
  proof (cases "length acc + length (wire_column (cols ! i)) > 2048")
    case True
    then show ?thesis using i d
      by (subst put_columns.simps) (simp add: wire_simps)
  next
    case False
    then have "put_columns cols i n acc = put_columns cols (Suc i) n (acc @ wire_column (cols ! i))"
      using i by (subst put_columns.simps) (simp add: wire_simps wire_column_def wire_str_def)
    also have "\<dots> = (let bs = (acc @ wire_column (cols ! i)) @ concat (map wire_column (drop (Suc i) (take n cols)))
      in if Suc i < n \<and> length bs > 2048 then Some None else Some (Some bs))"
      by (rule Suc.hyps(1)) (use i Suc.prems in auto)
    finally show ?thesis using i d False by (auto simp: Let_def)
  qed
qed

lemma put_fields_exact:
  "put_fields acc fs =
     (if fs \<noteq> [] \<and> length (acc @ wire_fields fs) \<ge> 512 then Some None else Some (Some (acc @ wire_fields fs)))"
proof (induction acc fs rule: put_fields.induct)
  case (2 acc t s fs)
  show ?case
  proof (cases "length acc + 1 + (length s + 1) \<ge> 512")
    case True
    then show ?thesis by (simp add: put_field_def wire_fields_def wire_str_def)
  next
    case False
    then have "put_field acc t s = Some (Some (acc @ t # wire_str s))"
      by (simp add: put_field_def wire_str_def)
    with 2 [OF this refl] False show ?thesis
      by (auto simp: wire_fields_def wire_str_def)
  qed
qed (simp add: wire_fields_def)

section \<open>The senders emit the wire format\<close>

lemma send_query_sends:
  "wf_output c \<Longrightarrow> ctx_ok c \<Longrightarrow>
   sends E c (pqwire_send_query E c (Some sql)) (wire_msg (ascii (CHR ''Q'')) (wire_str sql))"
  by (simp add: pqwire_send_query_def wire_str_def emit_msg_sends)

lemma send_empty_sends:
  assumes "wf_output c" "ctx_ok c"
  shows "sends E c (pqwire_send_terminate E c) (wire_msg (ascii (CHR ''X'')) [])"
    "sends E c (pqwire_send_sync E c) (wire_msg (ascii (CHR ''S'')) [])"
    "sends E c (pqwire_send_flush E c) (wire_msg (ascii (CHR ''H'')) [])"
    "sends E c (pqwire_send_parse_complete E c) (wire_msg (ascii (CHR ''1'')) [])"
    "sends E c (pqwire_send_bind_complete E c) (wire_msg (ascii (CHR ''2'')) [])"
    "sends E c (pqwire_send_close_complete E c) (wire_msg (ascii (CHR ''3'')) [])"
    "sends E c (pqwire_send_no_data E c) (wire_msg (ascii (CHR ''n'')) [])"
  using assms
  by (simp_all add: pqwire_send_terminate_def pqwire_send_sync_def pqwire_send_flush_def
      pqwire_send_parse_complete_def pqwire_send_bind_complete_def pqwire_send_close_complete_def
      pqwire_send_no_data_def emit_empty_def emit_msg_sends)

lemma send_parse_sends:
  fixes n :: u16 and st :: "bytes option" and q :: bytes
  assumes "wf_output c" "ctx_ok c" "holds (unat n) oids"
  defines "body \<equiv> parse_body (c_str st) q (arg_list 0 oids (unat n))"
  shows "if length body \<le> 4352 then sends E c (pqwire_send_parse E c st (Some q) oids n) (wire_msg (ascii (CHR ''P'')) body)
         else pqwire_send_parse E c st (Some q) oids n = Some (- 1, c)"
proof -
  have l: "length body = (length (c_str st) + 1) + (length q + 1) + 2 + unat n * 4"
    using assms(3) by (simp add: body_def parse_body_def wire_simps be32.length_arg_encs)
  show ?thesis
  proof (cases "length body \<le> 4352")
    case True
    have "pqwire_send_parse E c st (Some q) oids n = emit_msg E c (ascii (CHR ''P'')) body"
      using True l assms(2,3)
      by (simp add: pqwire_send_parse_def limit_defs Let_def be32.put_array_all body_def parse_body_def
          wire_str_def be32.wire_counted_arg_list)
    then show ?thesis using True emit_msg_sends [OF assms(1)] by simp
  next
    case False
    then show ?thesis using l assms(2) by (simp add: pqwire_send_parse_def limit_defs)
  qed
qed

lemma send_bind_sends:
  fixes nf np nr :: u16 and portal st :: "bytes option"
  assumes "wf_output c" "ctx_ok c" "can_grow E"
    "holds (unat nf) fmts" "value_args (unat np) lens vals vs" "holds (unat nr) rfmts"
  defines "body \<equiv> bind_body (c_str portal) (c_str st) (arg_list 0 fmts (unat nf)) vs (arg_list 0 rfmts (unat nr))"
  assumes room: "length body \<le> 64 + 256 * unat np"
  shows "sends E c (pqwire_send_bind E c portal st fmts nf lens vals np rfmts nr)
           (wire_msg (ascii (CHR ''B'')) body)"
proof -
  let ?cap = "64 + unat np * 256"
  have n: "length vs = unat np" using assms(5) by (simp add: value_args_def)
  have l: "length body = (length (c_str portal) + 1) + (length (c_str st) + 1) + (2 + unat nf * 2) +
      (2 + length (wire_values vs)) + (2 + unat nr * 2)"
    using assms(4,6) by (simp add: body_def bind_body_def wire_simps be16.length_arg_encs wire_values_def)
  let ?b = "wire_str (c_str portal) @ wire_str (c_str st) @ wire_counted wr16_be (arg_list 0 fmts (unat nf)) @ wr16_be np"
  have v: "bind_values E lens vals 0 (unat np) ?b ?cap = Some (Some (?b @ wire_values vs, ?cap))"
    using bind_values_ok [OF assms(5), of 0 ?b ?cap] l room assms(4)
    by (simp add: wire_simps be16.length_arg_encs)
  have "pqwire_send_bind E c portal st fmts nf lens vals np rfmts nr = emit_msg E c (ascii (CHR ''B'')) body"
    using v l room assms(2,3,4,6) n
    by (simp add: pqwire_send_bind_def Let_def can_grow_def be16.put_array_all be16.wire_counted_arg_list
        be16.length_arg_encs body_def bind_body_def wire_str_def wire_counted_def wire_values_def)
  then show ?thesis using emit_msg_sends [OF assms(1)] by simp
qed

lemma send_target_sends:
  assumes "wf_output c" "ctx_ok c"
  shows "if length (c_str name) < PQWIRE_MAX_STMT_NAME + 1
         then sends E c (send_target_name E c t target name) (wire_msg t (target_body target (c_str name)))
         else send_target_name E c t target name = Some (- 1, c)"
  using assms emit_msg_sends [OF assms(1), of E t "target_body target (c_str name)"]
  by (auto simp: send_target_name_def Let_def target_body_def wire_str_def)

lemma send_execute_sends:
  assumes "wf_output c" "ctx_ok c"
  shows "if length (c_str portal) < PQWIRE_MAX_PORTAL_NAME + 4
         then sends E c (pqwire_send_execute E c portal m)
                (wire_msg (ascii (CHR ''E'')) (execute_body (c_str portal) m))
         else pqwire_send_execute E c portal m = Some (- 1, c)"
  using assms emit_msg_sends [OF assms(1), of E "ascii (CHR ''E'')" "execute_body (c_str portal) m"]
  by (auto simp: pqwire_send_execute_def Let_def execute_body_def wire_str_def)

lemma send_row_description_sends:
  assumes "wf_output c" "ctx_ok c" "min n PQWIRE_MAX_ROW_COLUMNS \<le> length cols"
  defines "body \<equiv> row_desc_body (take (min n PQWIRE_MAX_ROW_COLUMNS) cols)"
  shows "if length body \<le> 2048
         then sends E c (pqwire_send_row_description E c (Some cols) n) (wire_msg (ascii (CHR ''T'')) body)
         else pqwire_send_row_description E c (Some cols) n = Some (- 1, c)"
proof -
  let ?n = "min n PQWIRE_MAX_ROW_COLUMNS"
  have b: "wr16_be (of_nat ?n) @ concat (map wire_column (take ?n cols)) = body"
    using assms(3) by (simp add: body_def row_desc_body_def wire_counted_def min_def)
  have "put_columns cols 0 ?n (wr16_be (of_nat ?n)) =
      (if 0 < ?n \<and> length body > 2048 then Some None else Some (Some body))"
    using put_columns_exact [of 0 ?n cols "wr16_be (of_nat ?n)"] assms(3) b by (simp add: Let_def)
  moreover have "length body > 2048 \<Longrightarrow> 0 < ?n" using b by (cases "?n = 0") auto
  ultimately show ?thesis using assms(2) emit_msg_sends [OF assms(1)]
    by (auto simp: pqwire_send_row_description_def Let_def)
qed

lemma send_data_row_multi_sends:
  fixes n :: u16
  assumes "wf_output c" "ctx_ok c" "can_grow E" "value_args (unat n) lens vals vs"
    "length (row_body vs) \<le> 64 + 256 * unat n"
  shows "sends E c (pqwire_send_data_row_multi E c lens vals n) (wire_msg (ascii (CHR ''D'')) (row_body vs))"
proof -
  have n: "length vs = unat n" using assms(4) by (simp add: value_args_def)
  have b: "row_body vs = wr16_be n @ wire_values vs"
    by (simp add: row_body_def wire_counted_def wire_values_def n)
  have "row_values E lens vals 0 (unat n) (wr16_be n) (64 + unat n * 256) =
      Some (Some (row_body vs, 64 + unat n * 256))"
    using row_values_ok [OF assms(4), of 0 "wr16_be n" "64 + unat n * 256"] assms(5) b by simp
  then have "pqwire_send_data_row_multi E c lens vals n = emit_msg E c (ascii (CHR ''D'')) (row_body vs)"
    using assms(2,3) by (simp add: pqwire_send_data_row_multi_def Let_def can_grow_def)
  then show ?thesis using emit_msg_sends [OF assms(1)] by simp
qed

lemma send_data_row_sends:
  assumes "wf_output c" "ctx_ok c" "\<And>d. v = Some d \<Longrightarrow> n \<le> length d"
  defines "body \<equiv> row_body [map_option (take n) v]"
  shows "if v = None \<or> n \<le> 4090
         then sends E c (pqwire_send_data_row E c v n) (wire_msg (ascii (CHR ''D'')) body)
         else pqwire_send_data_row E c v n = Some (- 1, c)"
  using assms(2,3) emit_msg_sends [OF assms(1), of E "ascii (CHR ''D'')" body]
  by (cases v)
    (auto simp: pqwire_send_data_row_def Let_def body_def row_body_def wire_counted_def wire_value_def
      c_str_def min_def)

lemma send_command_complete_sends:
  "wf_output c \<Longrightarrow> ctx_ok c \<Longrightarrow>
   sends E c (pqwire_send_command_complete E c (Some tag)) (wire_msg (ascii (CHR ''C'')) (wire_str tag))"
  by (simp add: pqwire_send_command_complete_def wire_str_def emit_msg_sends)

lemma send_error_response_sends:
  assumes "wf_output c" "ctx_ok c"
  shows "if length (error_body sev st msg) < 512
         then sends E c (pqwire_send_error_response E c (Some sev) (Some st) (Some msg))
                (wire_msg (ascii (CHR ''E'')) (error_body sev st msg))
         else pqwire_send_error_response E c (Some sev) (Some st) (Some msg) = Some (- 1, c)"
  using assms(2) emit_msg_sends [OF assms(1), of E "ascii (CHR ''E'')" "error_body sev st msg"]
  by (auto simp: pqwire_send_error_response_def Let_def put_fields_exact error_body_def
      simp del: put_fields.simps)

text \<open>
  \<open>pqwire_send_startup\<close>: the message, a refusal, or a store past the end of the stack
  buffer, depending on the lengths of the names. The keyword \<open>database\<close> is stored without a
  check, so a user name of 490 to 497 bytes overruns the buffer.
\<close>

lemma send_startup_cases:
  fixes user db :: "bytes option"
  assumes "wf_output c" "ctx_ok c" "role c = PQWIRE_ROLE_CLIENT"
  defines "u \<equiv> c_str user" and "d \<equiv> c_str db"
  shows "if length u \<ge> 498 then pqwire_send_startup E c user db = Some (- 1, c)
         else if length u \<ge> 490 then pqwire_send_startup E c user db = None
         else if length u + length d \<ge> 487 then pqwire_send_startup E c user db = Some (- 1, c)
         else sends E c (pqwire_send_startup E c user db) (startup_msg u d)"
proof -
  have s: "pqwire_send_startup E c user db = Option.bind (append_output E c (startup_msg u d)) (\<lambda>c. Some (0, c))"
    if "length u < 490" "length u + length d < 487"
    using that assms(2,3)
    by (simp add: pqwire_send_startup_def Let_def fresh_block_def startup_msg_def startup_body_def
        wire_str_def u_def d_def)
  show ?thesis
    using assms(2,3) s append_output_sends [OF assms(1), of E "startup_msg u d"]
    by (auto simp: pqwire_send_startup_def Let_def fresh_block_def u_def d_def put_def)
qed

section \<open>Properties\<close>

lemma bind_values_safe:
  assumes "value_args n lens vals vs" "length acc \<le> cap"
  shows "\<exists>r. bind_values E lens vals i n acc cap = Some r \<and>
     (\<forall>acc' cap'. r = Some (acc', cap') \<longrightarrow> length acc' \<le> cap')"
  using assms(2)
proof (induction "n - i" arbitrary: i acc cap)
  case 0
  then show ?case by (subst bind_values.simps) simp
next
  case (Suc k)
  then have i: "i < n" "k = n - Suc i" by simp_all
  note d = value_argsD [OF assms(1) i(1)]
  let ?v = "vs ! i" and ?acc = "acc @ wr32_be (value_length (vs ! i))"
  note IH = Suc.hyps(1) [OF i(2)]
  show ?case
  proof (cases "length acc + 4 > cap")
    case True
    then show ?thesis using i d(1) by (subst bind_values.simps) simp
  next
    case False
    show ?thesis
    proof (cases "c_str ?v = []")
      case True
      with False i d(1,2) IH [of ?acc cap] show ?thesis by (subst bind_values.simps) simp
    next
      case ne: False
      then obtain b where b: "arg_at None vals i = Some (Some b)"
        "mem_read b 0 (unat (value_length ?v)) = Some (c_str ?v)" using d(3) by blast
      then have l: "unat (value_length ?v) = length (c_str ?v)" using mem_read_SomeD by fastforce
      show ?thesis
      proof (cases "grow_cap E cap (length ?acc) (length (c_str ?v))")
        case None
        then show ?thesis using False ne i d(1,2) l by (subst bind_values.simps) simp
      next
        case (Some cap')
        then have "length (?acc @ c_str ?v) \<le> cap'"
          by (auto simp: grow_cap_def split: if_splits)
        with IH [of "?acc @ c_str ?v" cap'] Some False ne i d(1,2) l b show ?thesis
          by (subst bind_values.simps) (simp add: put_value_def)
      qed
    qed
  qed
qed

text \<open>What \<open>pqwire_send_bind\<close> writes before the values, into its first allocation.\<close>

definition bind_head :: "bytes \<Rightarrow> bytes \<Rightarrow> u16 list option \<Rightarrow> u16 \<Rightarrow> u16 \<Rightarrow> bytes" where
  "bind_head portal st fmts nf np =
     portal @ [0] @ st @ [0] @ wr16_be nf @ concat (map wr16_be (arg_list 0 fmts (unat nf))) @ wr16_be np"

lemma length_bind_head:
  "holds (unat nf) fmts \<Longrightarrow> length (bind_head portal st fmts nf np) = length portal + length st + 2 * unat nf + 6"
  by (simp add: bind_head_def be16.length_arg_encs)

lemma send_bind_head_refused:
  fixes nf np nr :: u16
  assumes "holds (unat nf) fmts" "\<not> (ctx_ok c \<and> alloc_ok E (AllocBytes (64 + unat np * 256)) \<and>
      length (bind_head (c_str portal) (c_str st) fmts nf np) \<le> 64 + unat np * 256)"
  shows "pqwire_send_bind E c portal st fmts nf lens vals np rfmts nr = Some (- 1, c)"
  using assms length_bind_head [OF assms(1)]
  by (auto simp: pqwire_send_bind_def Let_def be16.put_array_all be16.length_arg_encs)

lemma send_bind_values:
  fixes nf np nr :: u16
  defines "h \<equiv> \<lambda>portal st fmts nf np. bind_head (c_str portal) (c_str st) fmts nf np"
  assumes "holds (unat nf) fmts" "holds (unat nr) rfmts"
    "ctx_ok c" "alloc_ok E (AllocBytes (64 + unat np * 256))" "length (h portal st fmts nf np) \<le> 64 + unat np * 256"
    and r: "bind_values E lens vals 0 (unat np) (h portal st fmts nf np) (64 + unat np * 256) = Some r"
      "\<And>acc' cap'. r = Some (acc', cap') \<Longrightarrow> length acc' \<le> cap'"
  shows "pqwire_send_bind E c portal st fmts nf lens vals np rfmts nr =
    (case r of None \<Rightarrow> Some (- 1, c)
     | Some (buf, cap) \<Rightarrow>
         if length buf + 2 + unat nr * 2 > cap then Some (- 1, c)
         else emit_msg E c (ascii (CHR ''B''))
                (buf @ wr16_be nr @ concat (map wr16_be (arg_list 0 rfmts (unat nr)))))"
  using assms length_bind_head [OF assms(2), of "c_str portal" "c_str st" np]
  by (auto simp: bind_head_def pqwire_send_bind_def Let_def be16.put_array_all be16.length_arg_encs split: option.split)

lemma send_bind_safe:
  fixes nf np nr :: u16
  assumes "wf_output c" "holds (unat nf) fmts" "value_args (unat np) lens vals vs" "holds (unat nr) rfmts"
  shows "\<exists>rc c'. pqwire_send_bind E c portal st fmts nf lens vals np rfmts nr = Some (rc, c') \<and>
     wf_output c' \<and> (rc = 0 \<and> output_frame c c' \<or> rc = - 1 \<and> c' = c)"
proof -
  let ?cap = "64 + unat np * 256" and ?h = "bind_head (c_str portal) (c_str st) fmts nf np"
  show ?thesis
  proof (cases "ctx_ok c \<and> alloc_ok E (AllocBytes ?cap) \<and> length ?h \<le> ?cap")
    case False
    from send_bind_head_refused [OF assms(2) this] show ?thesis using assms(1) by simp
  next
    case True
    obtain r where r: "bind_values E lens vals 0 (unat np) ?h ?cap = Some r"
      "\<And>acc' cap'. r = Some (acc', cap') \<Longrightarrow> length acc' \<le> cap'"
      using bind_values_safe [OF assms(3), of ?h ?cap E 0] True by auto
    note s = send_bind_values [OF assms(2,4) _ _ _ r]
    show ?thesis
    proof (cases r)
      case None
      with s True assms(1) show ?thesis by simp
    next
      case (Some p)
      obtain buf cap where p: "p = (buf, cap)" by (cases p)
      obtain c' where "emit_msg E c (ascii (CHR ''B''))
          (buf @ wr16_be nr @ concat (map wr16_be (arg_list 0 rfmts (unat nr)))) = Some (0, c')"
        "wf_output c'" "output_frame c c'"
        using emit_msg_ok [OF assms(1)] by blast
      with s True Some p assms(1) show ?thesis by auto
    qed
  qed
qed

text \<open>
  C26. \<open>pqwire_send_bind\<close> stays inside its buffers for all arguments that describe themselves
  correctly: it returns 0 or -1, in the latter case without touching the context, whatever the
  sizes of names, formats and values and whether or not memory runs out.
\<close>

theorem send_bind_in_bounds:
  fixes nf np nr :: u16
  assumes "wf_output c" "holds (unat nf) fmts" "value_args (unat np) lens vals vs" "holds (unat nr) rfmts"
  shows "\<exists>rc c'. pqwire_send_bind E c portal st fmts nf lens vals np rfmts nr = Some (rc, c') \<and>
     wf_output c' \<and> (rc = 0 \<and> output_frame c c' \<or> rc = - 1 \<and> c' = c)"
  by (rule send_bind_safe [OF assms])

theorem send_bind_in_bounds_witness:
  "\<exists>rc c'. pqwire_send_bind (roomy_env\<lparr>alloc_ok := \<lambda>r. r \<noteq> AllocBytes 1434\<rparr>) (fresh_ctx PQWIRE_ROLE_CLIENT) None None
       None 0 (Some [400]) (Some [Some (replicate 400 7)]) 1 None 0 = Some (rc, c') \<and>
     wf_output c' \<and> (rc = 0 \<and> output_frame (fresh_ctx PQWIRE_ROLE_CLIENT) c' \<or>
       rc = - 1 \<and> c' = fresh_ctx PQWIRE_ROLE_CLIENT)"
  by (rule send_bind_in_bounds [where vs = "[Some (replicate 400 7)]"])
    (simp_all add: value_args_def arg_at_def)

text \<open>
  C35. \<open>pqwire_send_bind\<close> refuses messages it has the memory for. For a Bind with one value, not
  empty, and any names, formats and result formats: when memory is unlimited, the call fails
  exactly when what comes before the value exceeds the first allocation of 320 bytes; or the
  value fits that allocation and the result formats behind it do not, because the buffer is
  grown for values only; or the value does not fit and the result formats exceed the 1024
  bytes of slack. In every other case the message is emitted. (The unnamed Bind without
  formats is refused for values of 309 and 310 bytes.)
\<close>

theorem send_bind_one_value:
  fixes nf nr :: u16
  assumes "wf_output c" "ctx_ok c" "can_grow E" "length v < 2 ^ 31" "v \<noteq> []"
    "holds (unat nf) fmts" "holds (unat nr) rfmts"
    "pos = length (c_str portal) + length (c_str st) + 2 * unat nf + 10" "tail = 2 + 2 * unat nr"
  shows "if pos > 320 \<or> (if pos + length v \<le> 320 then pos + length v + tail > 320 else tail > 1024)
         then pqwire_send_bind E c portal st fmts nf (Some [of_nat (length v)]) (Some [Some v]) 1 rfmts nr = Some (- 1, c)
         else sends E c (pqwire_send_bind E c portal st fmts nf (Some [of_nat (length v)]) (Some [Some v]) 1 rfmts nr)
                (wire_msg (ascii (CHR ''B'')) (bind_body (c_str portal) (c_str st) (arg_list 0 fmts (unat nf)) [Some v]
                   (arg_list 0 rfmts (unat nr))))"
proof -
  let ?l = "of_nat (length v) :: u32" and ?h = "bind_head (c_str portal) (c_str st) fmts nf 1"
  let ?send = "pqwire_send_bind E c portal st fmts nf (Some [?l]) (Some [Some v]) 1 rfmts nr"
  have l: "sint ?l > 0" "unat ?l = length v"
    using assms(4,5) sint_of_nat_small32 [of "length v"] by (simp_all add: unat_of_nat_small)
  have h: "length ?h + 4 = pos" using length_bind_head [OF assms(6)] assms(8) by simp
  have al: "alloc_ok E (AllocBytes n)" for n using assms(3) by (simp add: can_grow_def)
  have s: "bind_values E (Some [?l]) (Some [Some v]) (Suc 0) (Suc 0) acc cap = Some (Some (acc, cap))" for acc cap
    by (subst bind_values.simps) simp
  let ?r = "if pos > 320 then None
      else Some (?h @ wr32_be ?l @ v, if pos + length v > 320 then pos + length v + 1024 else 320)"
  have b: "bind_values E (Some [?l]) (Some [Some v]) 0 (unat (1 :: u16)) ?h (64 + unat (1 :: u16) * 256) = Some ?r"
    using l s al h
    by (subst bind_values.simps) (auto simp: arg_at_def put_value_def grow_cap_def)
  have e: "bind_body (c_str portal) (c_str st) (arg_list 0 fmts (unat nf)) [Some v] (arg_list 0 rfmts (unat nr)) =
      ?h @ wr32_be ?l @ v @ wr16_be nr @ concat (map wr16_be (arg_list 0 rfmts (unat nr)))"
    using be16.wire_counted_arg_list [OF assms(6)] be16.wire_counted_arg_list [OF assms(7)]
    by (simp add: bind_body_def bind_head_def wire_counted_def wire_value_def wire_str_def c_str_def)
  show ?thesis
  proof (cases "length ?h \<le> 320")
    case False
    then show ?thesis using send_bind_head_refused [OF assms(6), of c E 1 portal st] h by simp
  next
    case True
    have "?send = (case ?r of None \<Rightarrow> Some (- 1, c) | Some (buf, cap) \<Rightarrow>
         if length buf + 2 + unat nr * 2 > cap then Some (- 1, c)
         else emit_msg E c (ascii (CHR ''B''))
                (buf @ wr16_be nr @ concat (map wr16_be (arg_list 0 rfmts (unat nr)))))"
      by (rule send_bind_values [OF assms(6,7,2) al _ b]) (use True h in \<open>auto split: if_splits\<close>)
    then show ?thesis
      unfolding e using h assms(9) emit_msg_sends [OF assms(1), of E "ascii (CHR ''B'')"] by (auto split: if_splits)
  qed
qed

theorem send_bind_one_value_witness:
  "pqwire_send_bind roomy_env (fresh_ctx PQWIRE_ROLE_CLIENT) (Some [65]) (Some [66]) None 0
     (Some [of_nat (length (replicate 307 65 :: bytes))]) (Some [Some (replicate 307 65)]) 1 None 0 =
   Some (- 1, fresh_ctx PQWIRE_ROLE_CLIENT)"
  using send_bind_one_value [of "fresh_ctx PQWIRE_ROLE_CLIENT" roomy_env "replicate 307 65" 0 None 0 None 12 "Some [65]" "Some [66]" 2]
  by (simp add: c_str_def)

text \<open>
  C36. \<open>pqwire_send_startup\<close> overruns its 512-byte stack buffer for user names of 490 to 497
  bytes: the keyword \<open>database\<close> is stored behind the name without a check.
\<close>

theorem send_startup_overflows:
  assumes "ctx_ok c" "role c = PQWIRE_ROLE_CLIENT" "490 \<le> length user" "length user \<le> 497"
  shows "pqwire_send_startup E c (Some user) db = None"
  using assms by (auto simp: pqwire_send_startup_def Let_def fresh_block_def c_str_def put_def)

theorem send_startup_overflows_witness:
  "pqwire_send_startup roomy_env (fresh_ctx PQWIRE_ROLE_CLIENT) (Some (replicate 490 65)) None = None"
  by (rule send_startup_overflows) simp_all

end
