(* ===== verification/Roundtrip.thy ===== *)
theory Roundtrip
  imports Feed Senders
begin

text \<open>
  Round trips between the serialisers and the parsers: what a \<open>pqwire_send_*\<close> call puts out,
  fed to a peer of the other role, queues the event that carries the call's arguments. First
  each parser on the wire format of \<open>Senders\<close>, then one message delivered through
  \<open>pqwire_feed_input\<close>, then each message end to end.
\<close>

section \<open>Reading the wire format\<close>

text \<open>A string and a counted array at the cursor.\<close>

lemma wire_str_at:
  assumes "field_at b off (wire_str s @ xs)" "is_cstr s"
  shows "read_cstr_at b off = Some (Some (s, Suc (length s)))" "field_at b (off + Suc (length s)) xs"
  using cstr_field_at [of b off s xs] assms by (simp_all add: wire_str_def)

lemma unat_count: "length vs < 65536 \<Longrightarrow> unat (of_nat (length vs) :: u16) = length vs"
  by (rule unat_of_nat_small) simp

lemma wire_counted_at:
  assumes "field_at b off (wire_counted enc vs @ xs)"
  shows "rd16_be b off = Some (of_nat (length vs))" "off + 2 \<le> length b"
    "field_at b (off + 2) (concat (map enc vs) @ xs)"
  using be16.dec_field_at [of b off "of_nat (length vs)" "concat (map enc vs) @ xs"] assms
  by (simp_all add: wire_counted_def)

context field_codec
begin

lemma read_counted:
  assumes "field_at b off (wire_counted enc vs @ xs)" "length vs \<le> length arr" "length vs < 65536"
  shows "read_array dec w 0 (length vs) b (off + 2) arr =
     Some (vs @ drop (length vs) arr, off + 2 + w * length vs)"
    and "field_at b (off + 2 + w * length vs) xs"
  using wire_counted_at(3) [OF assms(1)] read_array_encs [of b "off + 2" vs xs 0 "length vs" arr]
    field_at_encs [of b "off + 2" vs xs] assms(2)
  by simp_all

end

section \<open>Parse\<close>

definition parse_event :: "bytes \<Rightarrow> bytes \<Rightarrow> u32 list \<Rightarrow> pq_parse" where
  "parse_event st q oids =
     \<lparr>pa_statement = copy_cstr PQWIRE_MAX_STMT_NAME (Some st), pa_query = copy_cstr PQWIRE_MAX_QUERY_LEN (Some q),
      pa_n_param_types = length oids,
      pa_param_type_oids = oids @ replicate (PQWIRE_MAX_PARAM_TYPES - length oids) 0\<rparr>"

lemma decode_parse_body:
  assumes "is_cstr st" "is_cstr q" "length oids \<le> PQWIRE_MAX_PARAM_TYPES"
  shows "decode_parse (parse_body st q oids) = Some (Some (parse_event st q oids))"
proof -
  let ?b = "parse_body st q oids"
  have l: "length oids < 65536" using assms(3) by (simp add: limit_defs)
  have f0: "field_at ?b 0 (wire_str st @ wire_str q @ wire_counted wr32_be oids @ [])"
    by (simp add: parse_body_def)
  note f1 = wire_str_at [OF f0 assms(1)]
  note f2 = wire_str_at [OF f1(2) assms(2)]
  note f3 = wire_counted_at [OF f2(2)]
  have "read_array rd32_be 4 0 (length oids) ?b (0 + Suc (length st) + Suc (length q) + 2)
      (replicate PQWIRE_MAX_PARAM_TYPES 0) =
      Some (oids @ drop (length oids) (replicate PQWIRE_MAX_PARAM_TYPES 0),
        0 + Suc (length st) + Suc (length q) + 2 + 4 * length oids)"
    by (rule be32.read_counted [OF f2(2)]) (use assms(3) l in simp_all)
  then show ?thesis
    using f1(1) f2(1) f3(1,2) assms(3) unat_count [OF l]
    by (simp add: decode_parse_def Let_def zero_parse_def parse_event_def min_absorb1)
qed

section \<open>Bind\<close>

text \<open>The views a Bind event holds: where each value lies in the body, and its format.\<close>

fun bind_views ::
  "(nat \<Rightarrow> data_ptr) \<Rightarrow> u16 list \<Rightarrow> nat \<Rightarrow> nat \<Rightarrow> bytes option list \<Rightarrow> pq_bind_param_view list" where
  "bind_views bp fmts i off [] = []"
| "bind_views bp fmts i off (v # vs) =
     \<lparr>pv_length = value_length v,
      pv_data = (case v of None \<Rightarrow> NullPtr | Some d \<Rightarrow> bp (off + 4)),
      pv_format = (if fmts = [] then 0 else if length fmts = 1 then fmts ! 0
                   else if i < length fmts then fmts ! i else 0)\<rparr>
     # bind_views bp fmts (Suc i) (off + 4 + length (c_str v)) vs"

lemma length_bind_views [simp]: "length (bind_views bp fmts i off vs) = length vs"
  by (induction vs arbitrary: i off) simp_all

lemma sint_minus_1 [simp]: "sint (- 1 :: u32) = - 1"
  by simp

lemma value_length_sign:
  assumes "length (c_str v) < 2 ^ 31"
  shows "sint (value_length v) < 0 \<longleftrightarrow> v = None"
proof (cases v)
  case (Some d)
  with assms sint_of_nat_small32 [of "length d"] show ?thesis by (simp add: c_str_def)
qed simp

lemma value_length_Some: "length d < 2 ^ 31 \<Longrightarrow> unat (value_length (Some d)) = length d"
  by (simp add: unat_of_nat_small)

lemma wire_value_at:
  assumes "field_at b off (wire_value v @ xs)" "length (c_str v) < 2 ^ 31"
  shows "rd32_be b off = Some (value_length v)" "off + 4 + length (c_str v) \<le> length b"
    "field_at b (off + 4 + length (c_str v)) xs" "field_at b (off + 4) (c_str v @ xs)"
proof -
  have f: "field_at b off (wr32_be (value_length v) @ c_str v @ xs)"
    using assms(1) by (simp add: wire_value_def)
  note d = be32.dec_field_at [OF f]
  show "rd32_be b off = Some (value_length v)" "field_at b (off + 4) (c_str v @ xs)" using d by simp_all
  show "field_at b (off + 4 + length (c_str v)) xs" using field_at_split [OF d(2)] .
  show "off + 4 + length (c_str v) \<le> length b" using field_at_length [OF d(2)] by simp
qed

lemma bind_params_wire:
  assumes "field_at b off (concat (map wire_value vs) @ xs)" "\<forall>v \<in> set vs. length (c_str v) < 2 ^ 31"
    "i + length vs = n" "n \<le> length ps" "length fmts \<le> length farr" "take (length fmts) farr = fmts"
  shows "bind_params bp (length fmts) farr b n i off ps =
     Some (Some (take i ps @ bind_views bp fmts i off vs @ drop n ps,
                 off + length (concat (map wire_value vs))))"
  using assms
proof (induction vs arbitrary: i off ps)
  case Nil
  then show ?case by (subst bind_params.simps) simp
next
  case (Cons v vs)
  have f: "field_at b off (wire_value v @ concat (map wire_value vs) @ xs)" using Cons.prems(1) by simp
  have lv: "length (c_str v) < 2 ^ 31" using Cons.prems(2) by simp
  note d = wire_value_at [OF f lv]
  let ?f = "if fmts = [] then 0 else if length fmts = 1 then fmts ! 0
            else if i < length fmts then fmts ! i else 0"
  let ?p = "\<lparr>pv_length = value_length v, pv_data = (case v of None \<Rightarrow> NullPtr | Some d \<Rightarrow> bp (off + 4)),
             pv_format = ?f\<rparr>"
  have fn: "farr ! j = fmts ! j" if "j < length fmts" for j
    using Cons.prems(6) that by (metis nth_take)
  have pf: "param_format (length fmts) farr i = Some ?f"
    using Cons.prems(5) fn by (cases fmts) (auto simp: param_format_def peek_def)
  have "bind_params bp (length fmts) farr b n i off ps =
      bind_params bp (length fmts) farr b n (Suc i) (off + 4 + length (c_str v)) (ps[i := ?p])"
  proof (cases v)
    case None
    then show ?thesis using d(1,2) pf Cons.prems(3,4)
      by (subst bind_params.simps) (simp add: c_str_def)
  next
    case (Some x)
    then show ?thesis
      using d(1,2) pf Cons.prems(3,4) lv value_length_sign [OF lv] value_length_Some [of x]
      by (subst bind_params.simps) (simp add: c_str_def Let_def)
  qed
  also have "\<dots> = Some (Some (take (Suc i) (ps[i := ?p]) @
        bind_views bp fmts (Suc i) (off + 4 + length (c_str v)) vs @ drop n (ps[i := ?p]),
        off + 4 + length (c_str v) + length (concat (map wire_value vs))))"
    by (rule Cons.IH) (use d(3) Cons.prems in auto)
  also have "\<dots> = Some (Some (take i ps @ bind_views bp fmts i off (v # vs) @ drop n ps,
        off + length (concat (map wire_value (v # vs)))))"
    using fill_from [of i ?p "bind_views bp fmts (Suc i) (off + 4 + length (c_str v)) vs" ps] Cons.prems(3,4)
    by (auto simp: wire_simps)
  finally show ?case .
qed

definition pad_to :: "'a \<Rightarrow> 'a list \<Rightarrow> 'a list" where
  "pad_to z xs = xs @ replicate (PQWIRE_MAX_BIND_PARAMS - length xs) z"

definition bind_event ::
  "(nat \<Rightarrow> data_ptr) \<Rightarrow> bytes \<Rightarrow> bytes \<Rightarrow> u16 list \<Rightarrow> bytes option list \<Rightarrow> u16 list \<Rightarrow> pq_bind" where
  "bind_event bp portal st fmts vs rfmts =
     (let off = length portal + length st + 2 * length fmts + 6
      in \<lparr>bi_portal = copy_cstr PQWIRE_MAX_PORTAL_NAME (Some portal),
          bi_statement = copy_cstr PQWIRE_MAX_STMT_NAME (Some st),
          bi_n_formats = length fmts, bi_formats = pad_to 0 fmts,
          bi_n_params = length vs, bi_params = pad_to zero_param_view (bind_views bp fmts 0 off vs),
          bi_n_result_formats = length rfmts, bi_result_formats = pad_to 0 rfmts,
          bi_raw_body = bp 0, bi_raw_body_len = length (bind_body portal st fmts vs rfmts)\<rparr>)"

lemma drop_replicate_pad: "xs @ drop (length xs) (replicate PQWIRE_MAX_BIND_PARAMS z) = pad_to z xs"
  by (simp add: pad_to_def)

lemma decode_results_wire:
  assumes "field_at b off (wire_counted wr16_be rf @ xs)" "length rf \<le> PQWIRE_MAX_BIND_PARAMS"
    "bi_result_formats r = replicate PQWIRE_MAX_BIND_PARAMS 0"
  shows "decode_bind_results b r off =
     Some (Some (r\<lparr>bi_n_result_formats := length rf, bi_result_formats := pad_to 0 rf\<rparr>))"
proof -
  have l: "length rf < 65536" using assms(2) by (simp add: limit_defs)
  have a: "length rf \<le> length (bi_result_formats r)" using assms(2,3) by simp
  show ?thesis
    using wire_counted_at(1,2) [OF assms(1)] be16.read_counted(1) [OF assms(1) a l] assms(2,3) unat_count [OF l]
    by (simp add: decode_bind_results_def Let_def min_absorb1 pad_to_def)
qed

lemma decode_params_wire:
  assumes "field_at b off (wire_counted wire_value vs @ wire_counted wr16_be rf @ xs)"
    "length vs \<le> PQWIRE_MAX_BIND_PARAMS" "\<forall>v \<in> set vs. length (c_str v) < 2 ^ 31"
    "length rf \<le> PQWIRE_MAX_BIND_PARAMS"
    "bi_n_formats r = length fmts" "bi_formats r = pad_to 0 fmts"
    "bi_params r = replicate PQWIRE_MAX_BIND_PARAMS zero_param_view"
    "bi_result_formats r = replicate PQWIRE_MAX_BIND_PARAMS 0"
  shows "decode_bind_params bp b r off =
     Some (Some (r\<lparr>bi_n_params := length vs, bi_params := pad_to zero_param_view (bind_views bp fmts 0 (off + 2) vs),
                   bi_n_result_formats := length rf, bi_result_formats := pad_to 0 rf\<rparr>))"
proof -
  have l: "length vs < 65536" using assms(2) by (simp add: limit_defs)
  note f = wire_counted_at [OF assms(1)]
  have p: "bind_params bp (length fmts) (pad_to 0 fmts) b (length vs) 0 (off + 2) (bi_params r) =
      Some (Some (pad_to zero_param_view (bind_views bp fmts 0 (off + 2) vs),
                  off + 2 + length (concat (map wire_value vs))))"
    using bind_params_wire [OF f(3) assms(3), of 0 "length vs" "bi_params r" fmts "pad_to 0 fmts" bp] assms(2,7)
    by (simp add: pad_to_def)
  let ?r = "r\<lparr>bi_n_params := length vs, bi_params := pad_to zero_param_view (bind_views bp fmts 0 (off + 2) vs)\<rparr>"
  have "decode_bind_results b ?r (off + 2 + length (concat (map wire_value vs))) =
      Some (Some (?r\<lparr>bi_n_result_formats := length rf, bi_result_formats := pad_to 0 rf\<rparr>))"
    by (rule decode_results_wire [OF field_at_split [OF f(3)]]) (use assms in simp_all)
  then show ?thesis
    using f(1,2) p assms(2,5,6) unat_count [OF l]
    by (simp add: decode_bind_params_def Let_def min_absorb1)
qed

lemma decode_formats_wire:
  assumes "field_at b off (wire_counted wr16_be fmts @ wire_counted wire_value vs @ wire_counted wr16_be rf @ xs)"
    "length fmts \<le> PQWIRE_MAX_BIND_PARAMS"
    "length vs \<le> PQWIRE_MAX_BIND_PARAMS" "\<forall>v \<in> set vs. length (c_str v) < 2 ^ 31"
    "length rf \<le> PQWIRE_MAX_BIND_PARAMS"
    "bi_formats r = replicate PQWIRE_MAX_BIND_PARAMS 0"
    "bi_params r = replicate PQWIRE_MAX_BIND_PARAMS zero_param_view"
    "bi_result_formats r = replicate PQWIRE_MAX_BIND_PARAMS 0"
  shows "decode_bind_formats bp b r off =
     Some (Some (r\<lparr>bi_n_formats := length fmts, bi_formats := pad_to 0 fmts, bi_n_params := length vs,
                   bi_params := pad_to zero_param_view (bind_views bp fmts 0 (off + 2 + 2 * length fmts + 2) vs),
                   bi_n_result_formats := length rf, bi_result_formats := pad_to 0 rf\<rparr>))"
proof -
  have l: "length fmts < 65536" using assms(2) by (simp add: limit_defs)
  have a: "length fmts \<le> length (bi_formats r)" using assms(2,6) by simp
  note f = wire_counted_at(1,2) [OF assms(1)] and r = be16.read_counted [OF assms(1) a l]
  let ?r = "r\<lparr>bi_n_formats := length fmts, bi_formats := pad_to 0 fmts\<rparr>"
  have "decode_bind_params bp b ?r (off + 2 + 2 * length fmts) =
     Some (Some (?r\<lparr>bi_n_params := length vs,
        bi_params := pad_to zero_param_view (bind_views bp fmts 0 (off + 2 + 2 * length fmts + 2) vs),
        bi_n_result_formats := length rf, bi_result_formats := pad_to 0 rf\<rparr>))"
    by (rule decode_params_wire [OF r(2)]) (use assms in simp_all)
  then show ?thesis
    using f r(1) assms(2,6) unat_count [OF l]
    by (simp add: decode_bind_formats_def Let_def min_absorb1 pad_to_def)
qed

lemma decode_bind_body:
  assumes "is_cstr portal" "is_cstr st" "length fmts \<le> PQWIRE_MAX_BIND_PARAMS"
    "length vs \<le> PQWIRE_MAX_BIND_PARAMS" "\<forall>v \<in> set vs. length (c_str v) < 2 ^ 31"
    "length rfmts \<le> PQWIRE_MAX_BIND_PARAMS"
  shows "decode_bind bp (bind_body portal st fmts vs rfmts) =
     Some (Some (bind_event bp portal st fmts vs rfmts))"
proof -
  let ?b = "bind_body portal st fmts vs rfmts"
  have f0: "field_at ?b 0 (wire_str portal @ wire_str st @ wire_counted wr16_be fmts @
      wire_counted wire_value vs @ wire_counted wr16_be rfmts @ [])"
    by (simp add: bind_body_def)
  note f1 = wire_str_at [OF f0 assms(1)]
  note f2 = wire_str_at [OF f1(2) assms(2)]
  let ?r = "zero_bind\<lparr>bi_raw_body := bp 0, bi_raw_body_len := length ?b,
      bi_portal := copy_cstr PQWIRE_MAX_PORTAL_NAME (Some portal),
      bi_statement := copy_cstr PQWIRE_MAX_STMT_NAME (Some st)\<rparr>"
  note d = decode_formats_wire [OF f2(2) assms(3,4,5,6), of ?r bp]
  have o: "0 + Suc (length portal) + Suc (length st) + 2 + 2 * length fmts + 2 =
      length portal + length st + 2 * length fmts + 6" by simp
  show ?thesis
    using f1(1) f2(1) d unfolding o
    by (simp add: decode_bind_def bind_event_def Let_def zero_bind_def)
qed


text \<open>Each view of a Bind event delimits exactly the bytes of its value in the body.\<close>

lemma bind_views_data:
  assumes "field_at b off (concat (map wire_value vs) @ xs)" "\<forall>v \<in> set vs. length (c_str v) < 2 ^ 31"
    "i < length vs" "vs ! i = Some d"
  shows "\<exists>at. pv_data (bind_views bp fmts k off vs ! i) = bp at \<and>
     pv_length (bind_views bp fmts k off vs ! i) = of_nat (length d) \<and>
     off + 4 \<le> at \<and> mem_read b at (length d) = Some d"
  using assms
proof (induction vs arbitrary: off k i)
  case (Cons v vs)
  have f: "field_at b off (wire_value v @ concat (map wire_value vs) @ xs)" using Cons.prems(1) by simp
  have lv: "length (c_str v) < 2 ^ 31" using Cons.prems(2) by simp
  note w = wire_value_at [OF f lv]
  show ?case
  proof (cases i)
    case 0
    with Cons.prems(4) have v: "v = Some d" by simp
    have "drop (off + 4) b = d @ concat (map wire_value vs) @ xs"
      using w(4) v by (simp add: field_at_def c_str_def)
    then show ?thesis using 0 v w(2) by (auto simp: mem_read_def c_str_def)
  next
    case (Suc j)
    then show ?thesis using Cons.IH [OF w(3), of j "Suc k"] Cons.prems by fastforce
  qed
qed simp

section \<open>Describe, Close, Execute, Query, CommandComplete\<close>

lemma decode_target_body:
  assumes "is_cstr name"
  shows "decode_target_name (target_body t name) = Some (Some (t, copy_cstr PQWIRE_MAX_STMT_NAME (Some name)))"
proof -
  have "field_at (target_body t name) 1 (wire_str name @ [])"
    by (simp add: target_body_def field_at_def)
  from wire_str_at(1) [OF this assms] show ?thesis
    by (simp add: decode_target_name_def target_body_def peek_def)
qed

lemma decode_execute_body:
  assumes "is_cstr portal"
  shows "decode_execute (execute_body portal m) =
     Some (Some \<lparr>ex_portal = copy_cstr PQWIRE_MAX_PORTAL_NAME (Some portal), ex_max_rows = m\<rparr>)"
proof -
  have f: "field_at (execute_body portal m) 0 (wire_str portal @ wr32_be m @ [])"
    by (simp add: execute_body_def)
  note g = wire_str_at [OF f assms]
  note h = be32.dec_field_at [OF g(2)]
  show ?thesis using g(1) h(1,3) by (simp add: decode_execute_def zero_execute_def Let_def)
qed

lemma read_wire_str: "is_cstr s \<Longrightarrow> read_cstr_at (wire_str s) 0 = Some (Some (s, Suc (length s)))"
  using wire_str_at(1) [of "wire_str s" 0 s "[]"] by simp

section \<open>ErrorResponse\<close>

lemma error_loop_fields:
  assumes "field_at b off (wire_fields fs @ 0 # xs)" "\<forall>(t, s) \<in> set fs. t \<noteq> 0 \<and> is_cstr s"
  shows "error_loop b off e = Some (foldl (\<lambda>e (t, s). error_field e t s) e fs)"
  using assms
proof (induction fs arbitrary: off e)
  case Nil
  then have "field_at b off (0 # xs)" by (simp add: wire_fields_def)
  from field_at_prefix [OF this] have "off < length b" "b ! off = 0" by auto
  then show ?case by (subst error_loop.simps) simp
next
  case (Cons f fs)
  obtain t s where f: "f = (t, s)" by (cases f)
  have "field_at b off ([t] @ wire_str s @ wire_fields fs @ 0 # xs)"
    using Cons.prems(1) by (simp add: f wire_fields_def)
  note g = field_at_prefix [OF this] field_at_split [OF this]
  have t: "off < length b" "b ! off = t" using g(1) by auto
  have ts: "t \<noteq> 0" "is_cstr s" using Cons.prems(2) by (auto simp: f)
  note h = wire_str_at [OF g(2) ts(2)]
  have "error_loop b (off + 1 + Suc (length s)) (error_field e t s) =
      Some (foldl (\<lambda>e (t, s). error_field e t s) (error_field e t s) fs)"
    by (rule Cons.IH) (use h(2) Cons.prems(2) in auto)
  then show ?case using t ts(1) h(1) f by (subst error_loop.simps) simp
qed

lemma decode_error_body:
  assumes "is_cstr sev" "is_cstr st" "is_cstr msg"
  shows "error_loop (error_body sev st msg) 0 zero_error =
     Some (zero_error\<lparr>severity := copy_cstr 32 (Some sev), code := copy_cstr 8 (Some st),
                      message := copy_cstr 256 (Some msg)\<rparr>)"
proof -
  let ?fs = "[(ascii (CHR ''S''), sev), (ascii (CHR ''C''), st), (ascii (CHR ''M''), msg)]"
  have "error_loop (error_body sev st msg) 0 zero_error = Some (foldl (\<lambda>e (t, s). error_field e t s) zero_error ?fs)"
    by (rule error_loop_fields [where xs = "[]"]) (use assms in \<open>auto simp: error_body_def\<close>)
  then show ?thesis by (simp add: error_field_def)
qed

section \<open>RowDescription\<close>

definition column_entry :: "nat \<Rightarrow> bytes pq_column_desc \<Rightarrow> nat pq_column_desc" where
  "column_entry i col = \<lparr>cd_name = Some i, cd_oid = cd_oid col, cd_format = cd_format col\<rparr>"

definition column_name :: "bytes pq_column_desc \<Rightarrow> bytes" where
  "column_name col = copy_cstr 64 (Some (c_str (cd_name col)))"

lemma wire_column_at:
  assumes "field_at b off (wire_column col @ xs)" "is_cstr (c_str (cd_name col))"
  defines "off' \<equiv> off + Suc (length (c_str (cd_name col)))"
  shows "off < length b"
    "read_cstr_at b off = Some (Some (c_str (cd_name col), Suc (length (c_str (cd_name col)))))"
    "off' + 18 \<le> length b" "rd32_be b (off' + 6) = Some (cd_oid col)"
    "rd16_be b (off' + 16) = Some (cd_format col)" "field_at b (off' + 18) xs"
proof -
  have f: "field_at b off (wire_str (c_str (cd_name col)) @ (wr32_be 0 @ wr16_be 0) @ wr32_be (cd_oid col) @
      (wr16_be 4 @ wr32_be (- 1)) @ wr16_be (cd_format col) @ xs)"
    using assms(1) by (simp add: wire_column_def)
  note g = wire_str_at [OF f assms(2), folded off'_def]
  note o = field_at_split [OF g(2)]
  note fm = field_at_split [OF field_at_split [OF o]]
  show "read_cstr_at b off = Some (Some (c_str (cd_name col), Suc (length (c_str (cd_name col)))))" by (rule g)
  show "off < length b" using field_at_length [OF f] by (simp add: wire_str_def)
  show "off' + 18 \<le> length b" using field_at_length [OF g(2)] by simp
  show "rd32_be b (off' + 6) = Some (cd_oid col)" using be32.dec_field_at(1) [OF o] by simp
  show "rd16_be b (off' + 16) = Some (cd_format col)" "field_at b (off' + 18) xs"
    using be16.dec_field_at(1,2) [OF fm] by (simp_all add: algebra_simps)
qed

lemma row_desc_wire:
  assumes "field_at b off (concat (map wire_column cols) @ xs)" "\<forall>col \<in> set cols. is_cstr (c_str (cd_name col))"
    "i + length cols = n" "n \<le> length (col_scratch c)" "n \<le> length (col_name_scratch c)"
  shows "row_desc_cols b n i off c = Some (n, c\<lparr>
      col_name_scratch := take i (col_name_scratch c) @ map column_name cols @ drop n (col_name_scratch c),
      col_scratch := take i (col_scratch c) @ map2 column_entry [i..<n] cols @ drop n (col_scratch c)\<rparr>)"
  using assms
proof (induction cols arbitrary: i off c)
  case Nil
  then show ?case by (subst row_desc_cols.simps) simp
next
  case (Cons col cols)
  have f: "field_at b off (wire_column col @ concat (map wire_column cols) @ xs)" using Cons.prems(1) by simp
  have cs: "is_cstr (c_str (cd_name col))" using Cons.prems(2) by simp
  note w = wire_column_at [OF f cs]
  have i: "i < n" "i < length (col_scratch c)" "i < length (col_name_scratch c)" using Cons.prems(3,4,5) by simp_all
  let ?c = "c\<lparr>col_name_scratch := (col_name_scratch c)[i := column_name col],
              col_scratch := (col_scratch c)[i := column_entry i col]\<rparr>"
  have "row_desc_cols b n i off c =
      row_desc_cols b n (Suc i) (off + Suc (length (c_str (cd_name col))) + 18) ?c"
    using w(1-5) i by (subst row_desc_cols.simps) (simp add: column_entry_def column_name_def Let_def)
  also have "\<dots> = Some (n, ?c\<lparr>
      col_name_scratch := take (Suc i) (col_name_scratch ?c) @ map column_name cols @ drop n (col_name_scratch ?c),
      col_scratch := take (Suc i) (col_scratch ?c) @ map2 column_entry [Suc i..<n] cols @ drop n (col_scratch ?c)\<rparr>)"
    by (rule Cons.IH) (use w(6) Cons.prems in auto)
  finally show ?case
    using fill_from [of i "column_name col" "map column_name cols" "col_name_scratch c"]
      fill_from [of i "column_entry i col" "map2 column_entry [Suc i..<n] cols" "col_scratch c"] Cons.prems(3,4,5) i(1)
    by (simp add: upt_conv_Cons)
qed

section \<open>DataRow\<close>

definition arena_fill :: "(nat \<Rightarrow> byte) \<Rightarrow> nat \<Rightarrow> bytes \<Rightarrow> nat \<Rightarrow> byte" where
  "arena_fill a at bs j = (if at \<le> j \<and> j < at + length bs then bs ! (j - at) else a j)"

lemma arena_write_fill: "at + length bs \<le> PQWIRE_ROW_ARENA \<Longrightarrow> arena_write a at bs = Some (arena_fill a at bs)"
  by (simp add: arena_write_def arena_fill_def fun_eq_iff)

lemma arena_fill_append: "arena_fill (arena_fill a at x) (at + length x) y = arena_fill a at (x @ y)"
  by (auto simp: arena_fill_def nth_append fun_eq_iff)

lemma arena_fill_Nil [simp]: "arena_fill a at [] = a"
  by (auto simp: arena_fill_def fun_eq_iff)

fun row_ptrs :: "nat \<Rightarrow> bytes option list \<Rightarrow> data_ptr list" where
  "row_ptrs at [] = []"
| "row_ptrs at (None # vs) = NullPtr # row_ptrs at vs"
| "row_ptrs at (Some d # vs) = Arena at # row_ptrs (at + length d) vs"

lemma length_row_ptrs [simp]: "length (row_ptrs at vs) = length vs"
  by (induction at vs rule: row_ptrs.induct) simp_all

definition row_fill :: "nat \<Rightarrow> nat \<Rightarrow> bytes option list \<Rightarrow> pq_data_row \<Rightarrow> pq_data_row" where
  "row_fill i at vs r =
     (let n = i + length vs in
      r\<lparr>dr_data := take i (dr_data r) @ row_ptrs at vs @ drop n (dr_data r),
        dr_len := take i (dr_len r) @ map (\<lambda>v. length (c_str v)) vs @ drop n (dr_len r),
        dr_format := take i (dr_format r) @ replicate (length vs) 0 @ drop n (dr_format r),
        dr_oid := take i (dr_oid r) @ replicate (length vs) 0 @ drop n (dr_oid r)\<rparr>)"

definition row_holds :: "nat \<Rightarrow> pq_data_row \<Rightarrow> bool" where
  "row_holds n r \<longleftrightarrow> n \<le> length (dr_data r) \<and> n \<le> length (dr_len r) \<and> n \<le> length (dr_format r) \<and> n \<le> length (dr_oid r)"

lemma row_fill_Cons:
  assumes "row_holds (i + length (v # vs)) r"
    and "set_column r i (case v of None \<Rightarrow> NullPtr | Some d \<Rightarrow> Arena at) (length (c_str v)) = Some r'"
  shows "row_fill (Suc i) (at + length (c_str v)) vs r' = row_fill i at (v # vs) r"
    and "row_holds (Suc i + length vs) r'"
  using assms
    fill_from [of i "case v of None \<Rightarrow> NullPtr | Some d \<Rightarrow> Arena at" "row_ptrs (at + length (c_str v)) vs" "dr_data r"]
    fill_from [of i "length (c_str v)" "map (\<lambda>v. length (c_str v)) vs" "dr_len r"]
    fill_from [of i 0 "replicate (length vs) 0" "dr_format r"]
    fill_from [of i 0 "replicate (length vs) 0" "dr_oid r"]
  by (cases v; auto simp: set_column_def row_holds_def row_fill_def c_str_def Let_def)+

lemma data_row_wire:
  assumes "field_at b off (concat (map wire_value vs) @ xs)" "\<forall>v \<in> set vs. length (c_str v) < 2 ^ 31"
    "i + length vs = n" "row_holds n r"
    "row_arena_used c + length (concat (map c_str vs)) \<le> PQWIRE_ROW_ARENA"
  shows "data_row_cols b n i off r c = Some (n, row_fill i (row_arena_used c) vs r,
      c\<lparr>row_arena := arena_fill (row_arena c) (row_arena_used c) (concat (map c_str vs)),
        row_arena_used := row_arena_used c + length (concat (map c_str vs))\<rparr>)"
  using assms
proof (induction vs arbitrary: i off r c)
  case Nil
  then show ?case by (subst data_row_cols.simps) (simp add: row_fill_def)
next
  case (Cons v vs)
  have f: "field_at b off (wire_value v @ concat (map wire_value vs) @ xs)" using Cons.prems(1) by simp
  have lv: "length (c_str v) < 2 ^ 31" using Cons.prems(2) by simp
  note w = wire_value_at [OF f lv]
  let ?u = "row_arena_used c"
  let ?p = "case v of None \<Rightarrow> NullPtr | Some d \<Rightarrow> Arena ?u"
  have h: "row_holds (i + length (v # vs)) r" using Cons.prems(3,4) by simp
  then obtain r' where r': "set_column r i ?p (length (c_str v)) = Some r'"
    by (auto simp: set_column_def row_holds_def)
  note rf = row_fill_Cons [OF h r']
  let ?c = "c\<lparr>row_arena := arena_fill (row_arena c) ?u (c_str v), row_arena_used := ?u + length (c_str v)\<rparr>"
  have "data_row_cols b n i off r c = data_row_cols b n (Suc i) (off + 4 + length (c_str v)) r' ?c"
  proof (cases v)
    case None
    then show ?thesis using w(1,2) Cons.prems(3) r'
      by (subst data_row_cols.simps) (simp add: c_str_def)
  next
    case (Some d)
    have m: "mem_read b (off + 4) (length d) = Some d"
      using w(2,4) Some by (simp add: field_at_def c_str_def)
    have "take_column b (off + 4) (length d) i r c = Some (r', ?c)"
      using Some Cons.prems(5) m r' by (simp add: take_column_def c_str_def arena_write_fill)
    then show ?thesis
      using Some w(1,2) Cons.prems(3) lv value_length_sign [OF lv] value_length_Some [of d]
      by (subst data_row_cols.simps) (simp add: c_str_def)
  qed
  also have "\<dots> = Some (n, row_fill (Suc i) (row_arena_used ?c) vs r',
      ?c\<lparr>row_arena := arena_fill (row_arena ?c) (row_arena_used ?c) (concat (map c_str vs)),
         row_arena_used := row_arena_used ?c + length (concat (map c_str vs))\<rparr>)"
    by (rule Cons.IH) (use w(3) rf(2) Cons.prems in auto)
  finally show ?case using rf(1) by (simp add: arena_fill_append add.assoc)
qed

lemma row_ptrs_data:
  assumes "i < length vs" "vs ! i = Some d"
  shows "\<exists>p. row_ptrs at vs ! i = Arena p \<and> map (arena_fill a at (concat (map c_str vs))) [p..<p + length d] = d"
  using assms
proof (induction at vs arbitrary: i a rule: row_ptrs.induct)
  case (2 at vs)
  then show ?case by (cases i) (auto simp: c_str_def)
next
  case (3 at x vs)
  show ?case
  proof (cases i)
    case 0
    then show ?thesis using 3(3) by (auto simp: arena_fill_def c_str_def nth_append intro!: nth_equalityI)
  next
    case (Suc j)
    with 3 obtain p where p: "row_ptrs (at + length x) vs ! j = Arena p"
      "map (arena_fill (arena_fill a at x) (at + length x) (concat (map c_str vs))) [p..<p + length d] = d"
      by fastforce
    then show ?thesis using Suc by (simp add: arena_fill_append)
  qed
qed simp

section \<open>StartupMessage\<close>

lemma startup_params_wire:
  assumes "is_cstr user" "is_cstr db"
  shows "startup_params (startup_body user db) 4 c =
     Some (c\<lparr>user_scratch := copy_cstr 128 (Some user), db_scratch := copy_cstr 128 (Some db)\<rparr>)"
proof -
  let ?b = "startup_body user db"
  have k: "is_cstr (text_of ''user'')" "is_cstr (text_of ''database'')" by (simp_all add: is_cstr_def)
  have f: "field_at ?b 4 (wire_str (text_of ''user'') @ wire_str user @ wire_str (text_of ''database'') @
      wire_str db @ [0])"
    by (simp add: startup_body_def field_at_def)
  note f1 = wire_str_at [OF f k(1)]
  note f2 = wire_str_at [OF f1(2) assms(1)]
  note f3 = wire_str_at [OF f2(2) k(2)]
  note f4 = wire_str_at [OF f3(2) assms(2)]
  have l: "length ?b = length user + length db + 21" by (simp add: startup_body_def wire_str_def)
  have s3: "startup_params ?b (4 + 5 + Suc (length user) + 9 + Suc (length db)) d = Some d" for d
    using l by (subst startup_params.simps) simp
  have s2: "startup_params ?b (4 + 5 + Suc (length user)) d = Some (d\<lparr>db_scratch := copy_cstr 128 (Some db)\<rparr>)" for d
    using l f3(1) f4(1) s3 by (subst startup_params.simps) simp
  show ?thesis
    using l f1(1) f2(1) s2 by (subst startup_params.simps) simp
qed

section \<open>One message delivered\<close>

text \<open>A context between messages, ready for typed messages.\<close>

definition idle :: "pqwire_ctx \<Rightarrow> bool" where
  "idle s \<longleftrightarrow> wf_ctx s \<and> ctx_ok s \<and> pending_input s = [] \<and> (role s = PQWIRE_ROLE_SERVER \<longrightarrow> startup_seen s)"

text \<open>\<open>loaded s m\<close>: the context \<open>s\<close> with exactly the bytes \<open>m\<close> in its input buffer.\<close>

definition loaded :: "pqwire_ctx \<Rightarrow> bytes \<Rightarrow> pqwire_ctx \<Rightarrow> bool" where
  "loaded s m c \<longleftrightarrow>
     (\<exists>b k e. c = s\<lparr>input_buf := b, input_len := length m, input_cap := k, input_epoch := e\<rparr> \<and>
        length b = k \<and> length m \<le> k \<and> take (length m) b = m)"

lemma loadedD:
  assumes "loaded s m c"
  shows "role c = role s" "ring_items c = ring_items s" "event_queue_size c = event_queue_size s"
    "proto_state c = proto_state s" "magic c = magic s" "max_message_size c = max_message_size s"
    "startup_seen c = startup_seen s" "input_len c = length m" "take (length m) (input_buf c) = m"
    "length m \<le> length (input_buf c)" "col_scratch c = col_scratch s" "col_name_scratch c = col_name_scratch s"
    "row_arena c = row_arena s" "row_arena_used c = row_arena_used s" "pending_input c = m"
    "output_bytes c = output_bytes s" "auth_state c = auth_state s"
    "user_scratch c = user_scratch s" "db_scratch c = db_scratch s"
  using assms by (auto simp: loaded_def ring_items_def pending_input_def output_bytes_def)

lemma loaded_wf: "loaded s m c \<Longrightarrow> wf_ctx s \<Longrightarrow> wf_ctx c"
  by (auto simp: loaded_def wf_defs ring_items_def)

lemma feed_loads:
  assumes "wf_ctx s" "ctx_ok s" "pending_input s = []" "can_grow E"
  obtains c where "loaded s m c"
    "pqwire_feed_input E s (Some m) = map_option (map_option (\<lambda>c. (length m, c))) (feed_loop c)"
proof -
  have l: "input_len s = 0" using assms(1,3) length_pending [of s] by (simp add: wf_ctx_def)
  have "reserve_input E s (length m) \<noteq> None"
    using assms(4) by (auto simp: reserve_input_def can_grow_def Let_def)
  then obtain s1 where r: "reserve_input E s (length m) = Some s1" by blast
  note s1 = reserve_input_ok [OF assms(1) r]
  have b: "length m \<le> length (input_buf s1)" "length (input_buf s1) = input_cap s1"
    using s1(1,4) l by (auto simp: wf_defs)
  have f: "\<exists>b k e. s1 = s\<lparr>input_buf := b, input_cap := k, input_epoch := e\<rparr>"
    by (rule exI [of _ "input_buf s1"], rule exI [of _ "input_cap s1"], rule exI [of _ "input_epoch s1"])
      (use r in \<open>auto simp: reserve_input_def Let_def split: if_splits\<close>)
  let ?c = "s1\<lparr>input_buf := m @ drop (length m) (input_buf s1), input_len := length m\<rparr>"
  have "loaded s m ?c" unfolding loaded_def
    by (rule exI [of _ "input_buf ?c"], rule exI [of _ "input_cap s1"], rule exI [of _ "input_epoch s1"])
      (use f b in auto)
  moreover have "pqwire_feed_input E s (Some m) = map_option (map_option (\<lambda>c. (length m, c))) (feed_loop ?c)"
    using assms(2) r b l s1(3) by (simp add: pqwire_feed_input_def)
  ultimately show thesis by (rule that)
qed

lemma shift_nothing: "n = length (input_buf c) \<or> n \<le> length (input_buf c) \<Longrightarrow> shift_input c n 0 = Some c"
  by (auto simp: shift_input_def mem_read_def poke_def)

lemma feed_loop_empty: "input_len c = 0 \<Longrightarrow> feed_loop c = Some (Some c)"
  by (subst feed_loop.simps) (simp add: feed_step_def startup_step_def typed_step_def)

lemma pending_field:
  assumes "loaded s m c" "field_at m off xs" "off + k \<le> length m"
  shows "mem_read (input_buf c) off k = Some (take k xs)"
proof -
  have "take k xs = take k (drop off (take (length m) (input_buf c)))"
    using assms(2) loadedD(9) [OF assms(1)] by (simp add: field_at_def)
  also have "\<dots> = take k (drop off (input_buf c))"
    using assms(3) by (simp add: drop_take min_def)
  finally show ?thesis using assms(3) loadedD(10) [OF assms(1)] by simp
qed

text \<open>
  Feeding one complete typed message to an idle context runs its handler once, on the
  context with the message in its buffer; the buffer itself is not moved.
\<close>

lemma feed_single_msg:
  assumes "idle s" "can_grow E" "length body + 4 \<le> max_message_size s" "length body + 4 < 2 ^ 32"
  obtains c d where "loaded s (wire_msg t body) c" "handle_message c t 5 body = Some d"
    "wf_ctx c" "wf_ctx d" "parse_frame c d"
    "pqwire_feed_input E s (Some (wire_msg t body)) =
       Some (Some (length (wire_msg t body), d\<lparr>input_len := 0\<rparr>))"
proof -
  let ?m = "wire_msg t body" and ?n = "of_nat (length body + 4) :: u32"
  have s: "wf_ctx s" "ctx_ok s" "pending_input s = []" using assms(1) by (simp_all add: idle_def)
  obtain c where c: "loaded s ?m c"
    "pqwire_feed_input E s (Some ?m) = map_option (map_option (\<lambda>c. (length ?m, c))) (feed_loop c)"
    using feed_loads [OF s assms(2)] .
  note L = loadedD [OF c(1)]
  have wf: "wf_ctx c" using loaded_wf [OF c(1) s(1)] .
  obtain d where d: "handle_message c t 5 body = Some d" "wf_ctx d" "parse_frame c d"
    using handle_message_safe [OF wf] unfolding safe_step_def by blast
  have n: "unat ?n = length body + 4" using assms(4) by (simp add: unat_of_nat_small del: of_nat_add)
  have f: "field_at ?m 0 ([t] @ wr32_be ?n @ body)" by (simp add: wire_msg_def)
  note g = field_at_split [OF f]
  note h = be32.dec_field_at [of ?m 1 ?n body]
  have lm: "length ?m = length body + 5" by (simp add: wire_msg_def)
  have hd: "peek (input_buf c) 0 = Some t" "rd32_be (input_buf c) 1 = Some ?n"
    "mem_read (input_buf c) 5 (length body) = Some body"
  proof -
    have t: "rd32_be (take (length ?m) (input_buf c)) 1 = Some ?n" using h g L(9) by simp
    show "rd32_be (input_buf c) 1 = Some ?n" using t rd32_be_take [of 1 "length ?m" "input_buf c"] L(10) lm by simp
    show "mem_read (input_buf c) 5 (length body) = Some body"
      using pending_field [OF c(1), of 5 body "length body"] h(2) g lm by simp
    have "input_buf c ! 0 = t" using L(9) lm
      by (metis (no_types) add_gr_0 nth_Cons_0 nth_take wire_msg_def zero_less_numeral)
    then show "peek (input_buf c) 0 = Some t" using L(10) lm by (cases "input_buf c") (auto simp: peek_def)
  qed
  have p: "input_len d = length body + 5" "input_buf d = input_buf c"
    using d(3) L(8) lm by (simp_all add: parse_frame_def)
  have sh: "shift_input d (5 + length body) 0 = Some d"
    using L(10) lm p(2) by (intro shift_nothing) simp
  have "feed_step c = Some (Continue (d\<lparr>input_len := 0\<rparr>))"
    using assms(1,3) L(1,6,7,8) hd n d(1) p(1) sh lm
    by (auto simp: feed_step_def typed_step_def idle_def Let_def)
  then have "feed_loop c = Some (Some (d\<lparr>input_len := 0\<rparr>))"
    by (subst feed_loop.simps) (simp add: feed_loop_empty)
  then show thesis using that [OF c(1) d(1) wf d(2,3)] c(2) by simp
qed

text \<open>\<open>received s s' ev\<close>: the queue of \<open>s'\<close> is that of \<open>s\<close> with \<open>ev\<close> added.\<close>

definition received :: "pqwire_ctx \<Rightarrow> pqwire_ctx \<Rightarrow> protocol_event \<Rightarrow> bool" where
  "received s s' ev \<longleftrightarrow> ring_items s' = keep_last (event_queue_size s) (ring_items s @ [ev])"

lemma enqueued:
  assumes "enqueue_event c ev = Some d" "wf_ctx c"
  shows "ring_items d = keep_last (event_queue_size c) (ring_items c @ [ev])" "ring_frame c d"
  using enqueue_event_ok [of c ev] assms by auto

lemma ring_items_upd [simp]:
  "ring_items (c\<lparr>input_len := n\<rparr>) = ring_items c" "ring_items (c\<lparr>proto_state := p\<rparr>) = ring_items c"
  "ring_items (c\<lparr>sql_scratch := s\<rparr>) = ring_items c" "ring_items (c\<lparr>tag_scratch := s\<rparr>) = ring_items c"
  "ring_items (c\<lparr>auth_state := a\<rparr>) = ring_items c" "ring_items (c\<lparr>startup_seen := b\<rparr>) = ring_items c"
  "ring_items (c\<lparr>row_arena := r, row_arena_used := u\<rparr>) = ring_items c"
  "ring_items (c\<lparr>col_scratch := x, col_name_scratch := y\<rparr>) = ring_items c"
  "ring_items (c\<lparr>user_scratch := u', db_scratch := v'\<rparr>) = ring_items c"
  by (simp_all add: ring_items_def)

text \<open>
  A sender and a receiver: what \<open>sends\<close> appended, delivered to an idle peer.
\<close>

lemma exchange:
  assumes "sends E c r (wire_msg t body)" "output_bytes c = []" "can_grow E" "idle s"
    "length body + 4 \<le> max_message_size s" "length body + 4 < 2 ^ 32"
  obtains c' x d where "r = Some (0, c')"
    "pqwire_feed_input E s (Some (output_bytes c')) = Some (Some (length (output_bytes c'), d\<lparr>input_len := 0\<rparr>))"
    "loaded s (wire_msg t body) x" "handle_message x t 5 body = Some d" "wf_ctx x" "wf_ctx d" "parse_frame x d"
proof -
  obtain c' where c': "r = Some (0, c')" "output_bytes c' = wire_msg t body"
    using assms(1-3) by (auto simp: sends_def)
  obtain x d where "loaded s (wire_msg t body) x" "handle_message x t 5 body = Some d"
    "wf_ctx x" "wf_ctx d" "parse_frame x d"
    "pqwire_feed_input E s (Some (wire_msg t body)) = Some (Some (length (wire_msg t body), d\<lparr>input_len := 0\<rparr>))"
    using feed_single_msg [OF assms(4,3,5,6)] by metis
  with c' show thesis by (intro that [of c' d x]) simp_all
qed

text \<open>
  \<open>delivers E r s P\<close>: the send \<open>r\<close> succeeds, and feeding what it put out to \<open>s\<close> succeeds
  and ends in a context with \<open>P\<close>.
\<close>

definition delivers ::
  "env \<Rightarrow> (int \<times> pqwire_ctx) option \<Rightarrow> pqwire_ctx \<Rightarrow> (pqwire_ctx \<Rightarrow> bool) \<Rightarrow> bool" where
  "delivers E r s P \<longleftrightarrow>
     (\<exists>c' s'. r = Some (0, c') \<and>
        pqwire_feed_input E s (Some (output_bytes c')) = Some (Some (length (output_bytes c'), s')) \<and> P s')"

text \<open>A sender with nothing left to read, and a peer that accepts a message of the given size.\<close>

definition sender :: "env \<Rightarrow> pqwire_ctx \<Rightarrow> bool" where
  "sender E c \<longleftrightarrow> can_grow E \<and> wf_ctx c \<and> ctx_ok c \<and> output_bytes c = []"

definition accepts :: "pqwire_ctx \<Rightarrow> pqwire_role \<Rightarrow> nat \<Rightarrow> bool" where
  "accepts s r n \<longleftrightarrow> idle s \<and> role s = r \<and> n + 4 \<le> max_message_size s \<and> max_message_size s < 2 ^ 32"

lemma deliver_msg:
  assumes "sends E c r (wire_msg t body)" "sender E c" "accepts s ro (length body)"
    and "\<And>x d. loaded s (wire_msg t body) x \<Longrightarrow> wf_ctx x \<Longrightarrow> wf_ctx d \<Longrightarrow> parse_frame x d \<Longrightarrow>
           handle_message x t 5 body = Some d \<Longrightarrow> P (d\<lparr>input_len := 0\<rparr>)"
  shows "delivers E r s P"
proof -
  have "length body + 4 \<le> max_message_size s" "length body + 4 < 2 ^ 32"
    using assms(3) by (auto simp: accepts_def)
  from exchange [OF assms(1) _ _ _ this] assms(2,3) obtain c' x d where
    "r = Some (0, c')"
    "pqwire_feed_input E s (Some (output_bytes c')) = Some (Some (length (output_bytes c'), d\<lparr>input_len := 0\<rparr>))"
    "loaded s (wire_msg t body) x" "handle_message x t 5 body = Some d" "wf_ctx x" "wf_ctx d" "parse_frame x d"
    unfolding sender_def accepts_def by metis
  then show ?thesis using assms(4) unfolding delivers_def by blast
qed

lemma deliver_event:
  assumes "sends E c r (wire_msg t body)" "sender E c" "accepts s ro (length body)"
    and "\<And>x. role x = ro \<Longrightarrow> handle_message x t 5 body = enqueue_event x ev"
  shows "delivers E r s (\<lambda>s'. received s s' ev)"
proof (rule deliver_msg [OF assms(1-3)])
  fix x d assume x: "loaded s (wire_msg t body) x" "wf_ctx x" "handle_message x t 5 body = Some d"
  have "enqueue_event x ev = Some d" using x(3) assms(3,4) loadedD(1) [OF x(1)] by (simp add: accepts_def)
  from enqueued [OF this x(2)] show "received s (d\<lparr>input_len := 0\<rparr>) ev"
    using loadedD(2,3) [OF x(1)] by (simp add: received_def)
qed

text \<open>Concrete peers, just created: a client, and a server that has seen its StartupMessage.\<close>

definition started_server :: pqwire_ctx where
  "started_server = (fresh_ctx PQWIRE_ROLE_SERVER)\<lparr>startup_seen := True\<rparr>"

lemma fresh_sender [simp]: "sender roomy_env (fresh_ctx r)" "sender roomy_env started_server"
  by (simp_all add: sender_def started_server_def wf_ctx_same ctx_ok_def output_bytes_def)

lemma fresh_accepts [simp]:
  "accepts (fresh_ctx PQWIRE_ROLE_CLIENT) PQWIRE_ROLE_CLIENT n \<longleftrightarrow> n + 4 \<le> 16777216"
  "accepts started_server PQWIRE_ROLE_SERVER n \<longleftrightarrow> n + 4 \<le> 16777216"
  by (simp_all add: accepts_def idle_def started_server_def wf_ctx_same ctx_ok_def pending_input_def)

section \<open>Round trips: frontend messages\<close>

lemmas message_defs = handle_message_def handle_frontend_def handle_backend_def

text \<open>
  C22. Query round trip: \<open>pqwire_send_query\<close> followed by \<open>pqwire_feed_input\<close> on an idle server
  queues one Query event, whose SQL is the statement (cut at the size of the scratch buffer),
  and moves the server to \<open>PROTO_STATE_QUERYING\<close>.
\<close>

theorem query_delivered:
  assumes "sender E c" "accepts s PQWIRE_ROLE_SERVER (length sql + 1)" "is_cstr sql"
  shows "delivers E (pqwire_send_query E c (Some sql)) s (\<lambda>s'.
     received s s' (mk_event PQ_EVENT_QUERY (PQuery SqlScratch)) \<and>
     sql_scratch s' = take (PQWIRE_MAX_QUERY_LEN - 1) sql \<and> proto_state s' = PROTO_STATE_QUERYING)"
proof (rule deliver_msg [OF send_query_sends assms(1)])
  show "wf_output c" "ctx_ok c" using assms(1) by (auto simp: sender_def)
  show "accepts s PQWIRE_ROLE_SERVER (length (wire_str sql))" using assms(2) by (simp add: wire_str_def)
  fix x d
  assume x: "loaded s (wire_msg (ascii (CHR ''Q'')) (wire_str sql)) x" "wf_ctx x"
    "handle_message x (ascii (CHR ''Q'')) 5 (wire_str sql) = Some d"
  note L = loadedD [OF x(1)]
  let ?x = "x\<lparr>sql_scratch := copy_cstr PQWIRE_MAX_QUERY_LEN (Some sql)\<rparr>"
  obtain y where y: "enqueue_event ?x (mk_event PQ_EVENT_QUERY (PQuery SqlScratch)) = Some y"
    "d = y\<lparr>proto_state := PROTO_STATE_QUERYING\<rparr>"
    using x(3) L(1) assms(2,3)
    by (auto simp: message_defs parse_query_msg_def read_wire_str bind_eq_Some_conv Let_def accepts_def)
  have "wf_ctx ?x" using x(2) assms(3) by (intro wf_ctx_same) (auto simp: limit_defs)
  note q = enqueued [OF y(1) this]
  show "received s (d\<lparr>input_len := 0\<rparr>) (mk_event PQ_EVENT_QUERY (PQuery SqlScratch)) \<and>
    sql_scratch (d\<lparr>input_len := 0\<rparr>) = take (PQWIRE_MAX_QUERY_LEN - 1) sql \<and>
    proto_state (d\<lparr>input_len := 0\<rparr>) = PROTO_STATE_QUERYING"
    using q(1) L(2,3) y(2) ring_frameD [OF q(2)] by (simp add: received_def copy_cstr_def)
qed

theorem query_delivered_witness:
  "delivers roomy_env (pqwire_send_query roomy_env (fresh_ctx PQWIRE_ROLE_CLIENT) (Some (text_of ''SELECT 1'')))
     started_server (\<lambda>s'.
     received started_server s' (mk_event PQ_EVENT_QUERY (PQuery SqlScratch)) \<and>
     sql_scratch s' = take (PQWIRE_MAX_QUERY_LEN - 1) (text_of ''SELECT 1'') \<and>
     proto_state s' = PROTO_STATE_QUERYING)"
  by (rule query_delivered) (simp_all add: is_cstr_def)


text \<open>
  C21. Parse round trip: statement name, query and parameter type OIDs (a \<open>NULL\<close> array sends
  zeros) arrive unchanged in the server's Parse event, for names and queries that fit the
  event's fields and at most 16 types.
\<close>

theorem parse_delivered:
  fixes n :: u16
  assumes "sender E c" "holds (unat n) oids" "unat n \<le> PQWIRE_MAX_PARAM_TYPES"
    "is_cstr (c_str st)" "is_cstr q" "length (c_str st) < PQWIRE_MAX_STMT_NAME" "length q < PQWIRE_MAX_QUERY_LEN"
    "accepts s PQWIRE_ROLE_SERVER (length (parse_body (c_str st) q (arg_list 0 oids (unat n))))"
  shows "delivers E (pqwire_send_parse E c st (Some q) oids n) s (\<lambda>s'.
     received s s' (mk_event PQ_EVENT_PARSE (PParse (parse_event (c_str st) q (arg_list 0 oids (unat n))))))"
proof -
  let ?body = "parse_body (c_str st) q (arg_list 0 oids (unat n))"
  have "length ?body \<le> 4352"
    using assms(2,3,6,7) by (simp add: parse_body_def wire_simps be32.length_arg_encs limit_defs)
  then have "sends E c (pqwire_send_parse E c st (Some q) oids n) (wire_msg (ascii (CHR ''P'')) ?body)"
    using send_parse_sends [of c n oids st q E] assms(1,2) by (auto simp: sender_def)
  then show ?thesis
    by (rule deliver_event [OF _ assms(1,8)])
      (use assms(2-5) in \<open>simp add: message_defs parse_parse_msg_def decode_parse_body\<close>)
qed

theorem parse_delivered_witness:
  "delivers roomy_env (pqwire_send_parse roomy_env (fresh_ctx PQWIRE_ROLE_CLIENT) (Some (text_of ''s1''))
       (Some (text_of ''SELECT $1'')) (Some [23]) 1) started_server (\<lambda>s'.
     received started_server s' (mk_event PQ_EVENT_PARSE (PParse (parse_event (c_str (Some (text_of ''s1'')))
       (text_of ''SELECT $1'') (arg_list 0 (Some [23]) (unat (1 :: u16)))))))"
  by (rule parse_delivered)
    (simp_all add: is_cstr_def limit_defs arg_list_def parse_body_def wire_simps)


text \<open>The views of a delivered Bind read back the values from the peer's input buffer.\<close>

definition reads_values :: "pqwire_ctx \<Rightarrow> pq_bind \<Rightarrow> bytes option list \<Rightarrow> bool" where
  "reads_values s b vs \<longleftrightarrow>
     bi_n_params b = length vs \<and>
     (\<forall>i < length vs. case vs ! i of
        None \<Rightarrow> pv_length (bi_params b ! i) = - 1 \<and> pv_data (bi_params b ! i) = NullPtr
      | Some d \<Rightarrow> pv_length (bi_params b ! i) = of_nat (length d) \<and>
          (\<exists>at. pv_data (bi_params b ! i) = InBuf (input_epoch s) at \<and>
                mem_read (input_buf s) at (length d) = Some d))"

lemma bind_views_None:
  "i < length vs \<Longrightarrow> vs ! i = None \<Longrightarrow>
   pv_length (bind_views bp fmts k off vs ! i) = - 1 \<and> pv_data (bind_views bp fmts k off vs ! i) = NullPtr"
  by (induction vs arbitrary: i k off) (auto simp: nth_Cons split: nat.split)

lemma nth_pad_to: "i < length xs \<Longrightarrow> pad_to z xs ! i = xs ! i"
  by (simp add: pad_to_def nth_append)

lemma drop_wire_msg: "drop (5 + at) (wire_msg t b) = drop at b"
proof -
  have "drop 5 (wire_msg t b) = b" by (simp add: wire_msg_def wr32_be_def)
  then show ?thesis by (metis add.commute drop_drop)
qed

text \<open>
  A context in which the body of the Bind still lies in the buffer from byte 15 on (the
  values start there or later) reads the values through the event's pointers.
\<close>

lemma bind_event_reads_in:
  assumes e: "input_epoch y = input_epoch x"
    and sub: "\<And>at n w. 10 \<le> at \<Longrightarrow> mem_read (bind_body portal st fmts vs rfmts) at n = Some w \<Longrightarrow>
      mem_read (input_buf y) (5 + at) n = Some w"
    and v: "\<forall>v \<in> set vs. length (c_str v) < 2 ^ 31"
  shows "reads_values y (bind_event (body_ptr x 5) portal st fmts vs rfmts) vs"
proof -
  let ?b = "bind_body portal st fmts vs rfmts"
  let ?off = "length portal + length st + 2 * length fmts + 6"
  have "?b = (wire_str portal @ wire_str st @ wire_counted wr16_be fmts @ wr16_be (of_nat (length vs))) @
      concat (map wire_value vs) @ wire_counted wr16_be rfmts"
    by (simp add: bind_body_def wire_counted_def)
  moreover have "length (wire_str portal @ wire_str st @ wire_counted wr16_be fmts @ wr16_be (of_nat (length vs))) = ?off"
    by (simp add: wire_str_def wire_counted_def be16.length_encs)
  ultimately have f: "field_at ?b ?off (concat (map wire_value vs) @ wire_counted wr16_be rfmts)"
    by (simp add: field_at_def)
  have "case vs ! i of
        None \<Rightarrow> pv_length (bind_views (body_ptr x 5) fmts 0 ?off vs ! i) = - 1 \<and>
          pv_data (bind_views (body_ptr x 5) fmts 0 ?off vs ! i) = NullPtr
      | Some w \<Rightarrow> pv_length (bind_views (body_ptr x 5) fmts 0 ?off vs ! i) = of_nat (length w) \<and>
          (\<exists>at. pv_data (bind_views (body_ptr x 5) fmts 0 ?off vs ! i) = InBuf (input_epoch y) at \<and>
                mem_read (input_buf y) at (length w) = Some w)" if i: "i < length vs" for i
  proof (cases "vs ! i")
    case None
    with bind_views_None [OF i None, of "body_ptr x 5" fmts 0 ?off] show ?thesis by simp
  next
    case (Some w)
    from bind_views_data [OF f v i Some, of "body_ptr x 5" fmts 0] obtain at where
      "pv_data (bind_views (body_ptr x 5) fmts 0 ?off vs ! i) = body_ptr x 5 at"
      "pv_length (bind_views (body_ptr x 5) fmts 0 ?off vs ! i) = of_nat (length w)"
      "?off + 4 \<le> at" "mem_read ?b at (length w) = Some w" by blast
    then show ?thesis using Some sub [of at "length w" w] e by (auto simp: body_ptr_def)
  qed
  moreover have "bi_params (bind_event (body_ptr x 5) portal st fmts vs rfmts) ! i =
      bind_views (body_ptr x 5) fmts 0 ?off vs ! i" if "i < length vs" for i
    using that by (simp add: bind_event_def Let_def nth_pad_to)
  moreover have "bi_n_params (bind_event (body_ptr x 5) portal st fmts vs rfmts) = length vs"
    by (simp add: bind_event_def Let_def)
  ultimately show ?thesis by (simp add: reads_values_def cong: option.case_cong)
qed

text \<open>The body of a message that lies at the start of a buffer.\<close>

lemma wire_body_read:
  assumes "take (length (wire_msg t b)) buf = wire_msg t b" "mem_read b at n = Some w"
  shows "mem_read buf (5 + at) n = Some w"
proof -
  let ?m = "wire_msg t b"
  from mem_read_SomeD [OF assms(2)] have w: "at + n \<le> length b" "w = take n (drop at b)" by auto
  have l: "length ?m = length b + 5" by (simp add: wire_msg_def)
  have "length ?m \<le> length buf" using arg_cong [OF assms(1), of length] by simp
  moreover have "take n (drop (5 + at) buf) = take n (drop (5 + at) (take (length ?m) buf))"
    using w(1) l by (simp add: drop_take min_def)
  ultimately show ?thesis using w l drop_wire_msg [of at t b] assms(1) by (simp add: mem_read_def)
qed

lemma bind_event_reads:
  assumes x: "loaded s (wire_msg t (bind_body portal st fmts vs rfmts)) x" and p: "parse_frame x d"
    and v: "\<forall>v \<in> set vs. length (c_str v) < 2 ^ 31"
  shows "reads_values (d\<lparr>input_len := 0\<rparr>) (bind_event (body_ptr x 5) portal st fmts vs rfmts) vs"
  by (rule bind_event_reads_in [OF _ _ v])
    (use p wire_body_read [OF loadedD(9) [OF x]] in \<open>auto simp: parse_frame_def\<close>)

text \<open>A Bind message on the wire, whoever built it, becomes the Bind event with its values.\<close>

lemma bind_msg_delivered:
  assumes "sends E c r (wire_msg (ascii (CHR ''B'')) (bind_body portal st fs vs rs))" "sender E c"
    "accepts s PQWIRE_ROLE_SERVER (length (bind_body portal st fs vs rs))"
    "is_cstr portal" "is_cstr st" "length fs \<le> PQWIRE_MAX_BIND_PARAMS" "length vs \<le> PQWIRE_MAX_BIND_PARAMS"
    "\<forall>v \<in> set vs. length (c_str v) < 2 ^ 31" "length rs \<le> PQWIRE_MAX_BIND_PARAMS"
  shows "delivers E r s (\<lambda>s'. \<exists>bp.
     received s s' (mk_event PQ_EVENT_BIND (PBind (bind_event bp portal st fs vs rs))) \<and>
     reads_values s' (bind_event bp portal st fs vs rs) vs)"
proof (rule deliver_msg [OF assms(1-3)])
  fix x d
  let ?body = "bind_body portal st fs vs rs"
  assume x: "loaded s (wire_msg (ascii (CHR ''B'')) ?body) x" "wf_ctx x" "parse_frame x d"
    "handle_message x (ascii (CHR ''B'')) 5 ?body = Some d"
  note L = loadedD [OF x(1)]
  let ?ev = "mk_event PQ_EVENT_BIND (PBind (bind_event (body_ptr x 5) portal st fs vs rs))"
  have "decode_bind (body_ptr x 5) ?body = Some (Some (bind_event (body_ptr x 5) portal st fs vs rs))"
    by (rule decode_bind_body [OF assms(4-9)])
  then have "enqueue_event x ?ev = Some d"
    using x(4) L(1) assms(3) by (simp add: message_defs parse_bind_msg_def accepts_def)
  from enqueued(1) [OF this x(2)] have "received s (d\<lparr>input_len := 0\<rparr>) ?ev"
    using L(2,3) by (simp add: received_def)
  with bind_event_reads [OF x(1,3) assms(8)]
  show "\<exists>bp. received s (d\<lparr>input_len := 0\<rparr>) (mk_event PQ_EVENT_BIND (PBind (bind_event bp portal st fs vs rs))) \<and>
      reads_values (d\<lparr>input_len := 0\<rparr>) (bind_event bp portal st fs vs rs) vs" by blast
qed




lemma describe_close_delivered:
  assumes "sender E c" "is_cstr (c_str name)" "length (c_str name) < PQWIRE_MAX_STMT_NAME"
    "accepts s PQWIRE_ROLE_SERVER (length (c_str name) + 2)"
  shows "delivers E (pqwire_send_describe E c t name) s (\<lambda>s'. received s s'
      (mk_event PQ_EVENT_DESCRIBE (PDescribe \<lparr>de_target = t, de_name = c_str name\<rparr>)))"
    "delivers E (pqwire_send_close E c t name) s (\<lambda>s'. received s s'
      (mk_event PQ_EVENT_CLOSE (PClose \<lparr>cl_target = t, cl_name = c_str name\<rparr>)))"
proof -
  have s: "sends E c (send_target_name E c ty t name) (wire_msg ty (target_body t (c_str name)))" for ty
    using send_target_sends [of c name E ty t] assms(1,3) by (auto simp: sender_def)
  have a: "accepts s PQWIRE_ROLE_SERVER (length (target_body t (c_str name)))"
    using assms(4) by (simp add: target_body_def wire_str_def)
  show "delivers E (pqwire_send_describe E c t name) s (\<lambda>s'. received s s'
      (mk_event PQ_EVENT_DESCRIBE (PDescribe \<lparr>de_target = t, de_name = c_str name\<rparr>)))"
    unfolding pqwire_send_describe_def
    by (rule deliver_event [OF s assms(1) a])
      (use assms(2,3) in \<open>simp add: message_defs parse_describe_msg_def decode_target_body copy_cstr_short\<close>)
  show "delivers E (pqwire_send_close E c t name) s (\<lambda>s'. received s s'
      (mk_event PQ_EVENT_CLOSE (PClose \<lparr>cl_target = t, cl_name = c_str name\<rparr>)))"
    unfolding pqwire_send_close_def
    by (rule deliver_event [OF s assms(1) a])
      (use assms(2,3) in \<open>simp add: message_defs parse_close_msg_def decode_target_body copy_cstr_short\<close>)
qed

text \<open>
  Execute round trip: portal name and row limit arrive unchanged.
\<close>

theorem execute_delivered:
  assumes "sender E c" "is_cstr (c_str portal)" "length (c_str portal) < PQWIRE_MAX_PORTAL_NAME"
    "accepts s PQWIRE_ROLE_SERVER (length (c_str portal) + 5)"
  shows "delivers E (pqwire_send_execute E c portal m) s (\<lambda>s'. received s s'
      (mk_event PQ_EVENT_EXECUTE (PExecute \<lparr>ex_portal = c_str portal, ex_max_rows = m\<rparr>)))"
proof -
  have s: "sends E c (pqwire_send_execute E c portal m) (wire_msg (ascii (CHR ''E'')) (execute_body (c_str portal) m))"
    using send_execute_sends [of c portal E m] assms(1,3) by (auto simp: sender_def)
  have a: "accepts s PQWIRE_ROLE_SERVER (length (execute_body (c_str portal) m))"
    using assms(4) by (simp add: execute_body_def wire_str_def)
  show ?thesis
    by (rule deliver_event [OF s assms(1) a])
      (use assms(2,3) in \<open>simp add: message_defs parse_execute_msg_def decode_execute_body copy_cstr_short\<close>)
qed

theorem execute_delivered_witness:
  "delivers roomy_env (pqwire_send_execute roomy_env (fresh_ctx PQWIRE_ROLE_CLIENT) (Some (text_of ''p'')) 10)
     started_server (\<lambda>s'. received started_server s'
      (mk_event PQ_EVENT_EXECUTE (PExecute \<lparr>ex_portal = c_str (Some (text_of ''p'')), ex_max_rows = 10\<rparr>)))"
  by (rule execute_delivered) (simp_all add: is_cstr_def limit_defs)


section \<open>Round trips: messages without a body\<close>

lemma control_delivered:
  assumes "sender E c" "accepts s PQWIRE_ROLE_SERVER 0"
  shows "delivers E (pqwire_send_sync E c) s (\<lambda>s'. received s s' (plain_event PQ_EVENT_SYNC))"
    "delivers E (pqwire_send_flush E c) s (\<lambda>s'. received s s' (plain_event PQ_EVENT_FLUSH))"
    "delivers E (pqwire_send_terminate E c) s (\<lambda>s'. received s s' (plain_event PQ_EVENT_TERMINATE))"
proof -
  have c: "wf_output c" "ctx_ok c" using assms(1) by (auto simp: sender_def)
  have a: "accepts s PQWIRE_ROLE_SERVER (length ([] :: bytes))" using assms(2) by simp
  note d = deliver_event [OF _ assms(1) a] and s = send_empty_sends [OF c, of E]
  show "delivers E (pqwire_send_sync E c) s (\<lambda>s'. received s s' (plain_event PQ_EVENT_SYNC))"
    by (rule d [OF s(2)]) (simp add: message_defs)
  show "delivers E (pqwire_send_flush E c) s (\<lambda>s'. received s s' (plain_event PQ_EVENT_FLUSH))"
    by (rule d [OF s(3)]) (simp add: message_defs)
  show "delivers E (pqwire_send_terminate E c) s (\<lambda>s'. received s s' (plain_event PQ_EVENT_TERMINATE))"
    by (rule d [OF s(1)]) (simp add: message_defs)
qed

lemma completion_delivered:
  assumes "sender E c" "accepts s PQWIRE_ROLE_CLIENT 0"
  shows "delivers E (pqwire_send_parse_complete E c) s (\<lambda>s'. received s s' (plain_event PQ_EVENT_PARSE_COMPLETE))"
    "delivers E (pqwire_send_bind_complete E c) s (\<lambda>s'. received s s' (plain_event PQ_EVENT_BIND_COMPLETE))"
    "delivers E (pqwire_send_close_complete E c) s (\<lambda>s'. received s s' (plain_event PQ_EVENT_CLOSE_COMPLETE))"
    "delivers E (pqwire_send_no_data E c) s (\<lambda>s'. received s s' (plain_event PQ_EVENT_NO_DATA))"
proof -
  have c: "wf_output c" "ctx_ok c" using assms(1) by (auto simp: sender_def)
  have a: "accepts s PQWIRE_ROLE_CLIENT (length ([] :: bytes))" using assms(2) by simp
  note d = deliver_event [OF _ assms(1) a] and s = send_empty_sends [OF c, of E]
  show "delivers E (pqwire_send_parse_complete E c) s (\<lambda>s'. received s s' (plain_event PQ_EVENT_PARSE_COMPLETE))"
    by (rule d [OF s(4)]) (simp add: message_defs)
  show "delivers E (pqwire_send_bind_complete E c) s (\<lambda>s'. received s s' (plain_event PQ_EVENT_BIND_COMPLETE))"
    by (rule d [OF s(5)]) (simp add: message_defs)
  show "delivers E (pqwire_send_close_complete E c) s (\<lambda>s'. received s s' (plain_event PQ_EVENT_CLOSE_COMPLETE))"
    by (rule d [OF s(6)]) (simp add: message_defs)
  show "delivers E (pqwire_send_no_data E c) s (\<lambda>s'. received s s' (plain_event PQ_EVENT_NO_DATA))"
    by (rule d [OF s(7)]) (simp add: message_defs)
qed

section \<open>Round trips: backend messages\<close>

text \<open>A handler that updates the scratch area first, then queues one event.\<close>

lemma received_from:
  assumes "loaded s m x" "enqueue_event y ev = Some d" "wf_ctx y" "ring_items y = ring_items x"
    "event_queue_size y = event_queue_size x"
  shows "received s d ev"
  using enqueued(1) [OF assms(2,3)] assms(4,5) loadedD(2,3) [OF assms(1)] by (simp add: received_def)

lemma received_upd [simp]:
  "received s (d\<lparr>input_len := n\<rparr>) ev = received s d ev" "received s (d\<lparr>proto_state := p\<rparr>) ev = received s d ev"
  "received s (d\<lparr>auth_state := a\<rparr>) ev = received s d ev"
  by (simp_all add: received_def)

lemma auth_ok_delivered:
  assumes "sender E c" "accepts s PQWIRE_ROLE_CLIENT 4"
  shows "delivers E (pqwire_send_auth_ok E c) s (\<lambda>s'.
     received s s' (plain_event PQ_EVENT_AUTHENTICATION_OK) \<and> auth_state s' = AUTH_STATE_DONE)"
proof (rule deliver_msg [OF _ assms(1)])
  show "sends E c (pqwire_send_auth_ok E c) (wire_msg (ascii (CHR ''R'')) (wr32_be 0))"
    using assms(1) by (auto simp: sender_def pqwire_send_auth_ok_def intro: emit_msg_sends)
  show "accepts s PQWIRE_ROLE_CLIENT (length (wr32_be 0))" using assms(2) by simp
  fix x d assume x: "loaded s (wire_msg (ascii (CHR ''R'')) (wr32_be 0)) x" "wf_ctx x"
    "handle_message x (ascii (CHR ''R'')) 5 (wr32_be 0) = Some d"
  have r: "rd32_be (wr32_be 0) 0 = Some 0" using be32.dec_enc [of "[]" 0 "[]"] by simp
  obtain y where y: "enqueue_event x (plain_event PQ_EVENT_AUTHENTICATION_OK) = Some y"
    "d = y\<lparr>auth_state := AUTH_STATE_DONE\<rparr>"
    using x(3) loadedD(1) [OF x(1)] assms(2) r
    by (auto simp: message_defs handle_authentication_def accepts_def bind_eq_Some_conv)
  show "received s (d\<lparr>input_len := 0\<rparr>) (plain_event PQ_EVENT_AUTHENTICATION_OK) \<and>
      auth_state (d\<lparr>input_len := 0\<rparr>) = AUTH_STATE_DONE"
    using received_from [OF x(1) y(1) x(2)] y(2) by simp
qed

lemma ready_for_query_delivered:
  assumes "sender E c" "accepts s PQWIRE_ROLE_CLIENT 1"
  shows "delivers E (pqwire_send_ready_for_query E c) s (\<lambda>s'.
     received s s' (plain_event PQ_EVENT_READY_FOR_QUERY) \<and> proto_state s' = PROTO_STATE_READY)"
proof (rule deliver_msg)
  let ?c = "c\<lparr>proto_state := PROTO_STATE_READY\<rparr>"
  have c: "wf_ctx ?c" "ctx_ok ?c" "output_bytes ?c = []" "can_grow E" "ctx_ok c"
    using assms(1) by (simp_all add: sender_def wf_ctx_same ctx_ok_def output_bytes_def)
  show "sends E ?c (pqwire_send_ready_for_query E c) (wire_msg (ascii (CHR ''Z'')) [ascii (CHR ''I'')])"
    using emit_msg_sends [of ?c E "ascii (CHR ''Z'')" "[ascii (CHR ''I'')]"] c
    by (auto simp: pqwire_send_ready_for_query_def)
  show "sender E ?c" using c by (simp add: sender_def)
  show "accepts s PQWIRE_ROLE_CLIENT (length [ascii (CHR ''I'')])" using assms(2) by simp
  fix x d assume x: "loaded s (wire_msg (ascii (CHR ''Z'')) [ascii (CHR ''I'')]) x" "wf_ctx x"
    "handle_message x (ascii (CHR ''Z'')) 5 [ascii (CHR ''I'')] = Some d"
  obtain y where y: "enqueue_event x (plain_event PQ_EVENT_READY_FOR_QUERY) = Some y"
    "d = y\<lparr>proto_state := PROTO_STATE_READY\<rparr>"
    using x(3) loadedD(1) [OF x(1)] assms(2)
    by (auto simp: message_defs handle_ready_for_query_def accepts_def bind_eq_Some_conv)
  show "received s (d\<lparr>input_len := 0\<rparr>) (plain_event PQ_EVENT_READY_FOR_QUERY) \<and>
      proto_state (d\<lparr>input_len := 0\<rparr>) = PROTO_STATE_READY"
    using received_from [OF x(1) y(1) x(2)] y(2) by simp
qed

text \<open>
  CommandComplete round trip: the tag arrives (cut at 63 bytes) and the client is READY.
\<close>

theorem command_complete_delivered:
  assumes "sender E c" "accepts s PQWIRE_ROLE_CLIENT (length tag + 1)" "is_cstr tag"
  shows "delivers E (pqwire_send_command_complete E c (Some tag)) s (\<lambda>s'.
     received s s' (mk_event PQ_EVENT_COMMAND_COMPLETE (PCommandComplete TagScratch)) \<and>
     tag_scratch s' = take 63 tag \<and> proto_state s' = PROTO_STATE_READY)"
proof (rule deliver_msg [OF send_command_complete_sends assms(1)])
  show "wf_output c" "ctx_ok c" using assms(1) by (auto simp: sender_def)
  show "accepts s PQWIRE_ROLE_CLIENT (length (wire_str tag))" using assms(2) by (simp add: wire_str_def)
  fix x d assume x: "loaded s (wire_msg (ascii (CHR ''C'')) (wire_str tag)) x" "wf_ctx x"
    "handle_message x (ascii (CHR ''C'')) 5 (wire_str tag) = Some d"
  let ?x = "x\<lparr>tag_scratch := copy_cstr 64 (Some tag)\<rparr>"
  obtain y where y: "enqueue_event ?x (mk_event PQ_EVENT_COMMAND_COMPLETE (PCommandComplete TagScratch)) = Some y"
    "d = y\<lparr>proto_state := PROTO_STATE_READY\<rparr>"
    using x(3) loadedD(1) [OF x(1)] assms(2,3)
    by (auto simp: message_defs parse_command_complete_def read_wire_str accepts_def bind_eq_Some_conv Let_def)
  have w: "wf_ctx ?x" using x(2) assms(3) by (intro wf_ctx_same) auto
  show "received s (d\<lparr>input_len := 0\<rparr>) (mk_event PQ_EVENT_COMMAND_COMPLETE (PCommandComplete TagScratch)) \<and>
      tag_scratch (d\<lparr>input_len := 0\<rparr>) = take 63 tag \<and> proto_state (d\<lparr>input_len := 0\<rparr>) = PROTO_STATE_READY"
    using received_from [OF x(1) y(1) w] y(2) ring_frameD [OF enqueued(2) [OF y(1) w]]
    by (simp add: copy_cstr_def)
qed

theorem command_complete_delivered_witness:
  "delivers roomy_env (pqwire_send_command_complete roomy_env started_server (Some (text_of ''SELECT 1'')))
     (fresh_ctx PQWIRE_ROLE_CLIENT) (\<lambda>s'.
     received (fresh_ctx PQWIRE_ROLE_CLIENT) s' (mk_event PQ_EVENT_COMMAND_COMPLETE (PCommandComplete TagScratch)) \<and>
     tag_scratch s' = take 63 (text_of ''SELECT 1'') \<and> proto_state s' = PROTO_STATE_READY)"
  by (rule command_complete_delivered) (simp_all add: is_cstr_def)


text \<open>
  C24. ErrorResponse round trip: severity, SQLSTATE and message arrive in the client's event, cut
  at the sizes of its fields, and the other fields are empty.
\<close>

theorem error_response_delivered:
  assumes "sender E c" "is_cstr sev" "is_cstr st" "is_cstr msg" "length (error_body sev st msg) < 512"
    "accepts s PQWIRE_ROLE_CLIENT (length (error_body sev st msg))"
  shows "delivers E (pqwire_send_error_response E c (Some sev) (Some st) (Some msg)) s (\<lambda>s'. received s s'
      (mk_event PQ_EVENT_ERROR_RESPONSE (PError (zero_error\<lparr>severity := copy_cstr 32 (Some sev),
         code := copy_cstr 8 (Some st), message := copy_cstr 256 (Some msg)\<rparr>))))"
proof -
  have s: "sends E c (pqwire_send_error_response E c (Some sev) (Some st) (Some msg))
      (wire_msg (ascii (CHR ''E'')) (error_body sev st msg))"
    using send_error_response_sends [of c sev st msg E] assms(1,5) by (auto simp: sender_def)
  show ?thesis
    by (rule deliver_event [OF s assms(1,6)])
      (use assms(2-4) in \<open>simp add: message_defs parse_error_response_def decode_error_body\<close>)
qed

theorem error_response_delivered_witness:
  "delivers roomy_env (pqwire_send_error_response roomy_env started_server (Some (text_of ''ERROR''))
       (Some (text_of ''42601'')) (Some (text_of ''syntax''))) (fresh_ctx PQWIRE_ROLE_CLIENT) (\<lambda>s'.
     received (fresh_ctx PQWIRE_ROLE_CLIENT) s'
      (mk_event PQ_EVENT_ERROR_RESPONSE (PError (zero_error\<lparr>severity := copy_cstr 32 (Some (text_of ''ERROR'')),
         code := copy_cstr 8 (Some (text_of ''42601'')), message := copy_cstr 256 (Some (text_of ''syntax''))\<rparr>))))"
  by (rule error_response_delivered)
    (simp_all add: is_cstr_def error_body_def wire_fields_def wire_str_def)


lemma wf_columns: "wf_ctx c \<Longrightarrow> length (col_scratch c) = 16 \<and> length (col_name_scratch c) = 16"
  by (simp add: wf_defs limit_defs)

text \<open>
  C23. RowDescription round trip: for up to 16 columns the client's column descriptors hold the
  server's names (cut at 63 bytes), type OIDs and formats, in order.
\<close>

theorem row_description_delivered:
  assumes "sender E c" "length cols \<le> PQWIRE_MAX_ROW_COLUMNS" "length (row_desc_body cols) \<le> 2048"
    "\<forall>col \<in> set cols. is_cstr (c_str (cd_name col))"
    "accepts s PQWIRE_ROLE_CLIENT (length (row_desc_body cols))"
  shows "delivers E (pqwire_send_row_description E c (Some cols) (length cols)) s (\<lambda>s'.
     received s s' (mk_event PQ_EVENT_ROW_DESCRIPTION (PRowDesc (length cols))) \<and>
     take (length cols) (col_name_scratch s') = map column_name cols \<and>
     take (length cols) (col_scratch s') = map2 column_entry [0..<length cols] cols)"
proof (rule deliver_msg [OF _ assms(1,5)])
  let ?n = "length cols" and ?b = "row_desc_body cols"
  show "sends E c (pqwire_send_row_description E c (Some cols) ?n) (wire_msg (ascii (CHR ''T'')) ?b)"
    using send_row_description_sends [of c ?n cols E] assms(1-3) by (auto simp: sender_def min_absorb1)
  fix x d assume x: "loaded s (wire_msg (ascii (CHR ''T'')) ?b) x" "wf_ctx x" "wf_ctx d"
    "handle_message x (ascii (CHR ''T'')) 5 ?b = Some d"
  have f: "field_at ?b 0 (wire_counted wire_column cols @ [])" by (simp add: row_desc_body_def)
  note g = wire_counted_at [OF f]
  have n: "unat (of_nat ?n :: u16) = ?n" using assms(2) by (simp add: unat_count limit_defs)
  let ?names = "map column_name cols @ drop ?n (col_name_scratch x)"
  let ?cols = "map2 column_entry [0..<?n] cols @ drop ?n (col_scratch x)"
  let ?x = "x\<lparr>col_name_scratch := ?names, col_scratch := ?cols\<rparr>"
  have r: "row_desc_cols ?b ?n 0 2 x = Some (?n, ?x)"
    using row_desc_wire [OF g(3) [unfolded add_0] assms(4), of 0 ?n x] wf_columns [OF x(2)] assms(2) by (simp add: limit_defs)
  have e: "enqueue_event ?x (mk_event PQ_EVENT_ROW_DESCRIPTION (PRowDesc ?n)) = Some d"
    using x(4) loadedD(1) [OF x(1)] assms(2,5) g(1,2) n r
    by (simp add: message_defs parse_row_description_def accepts_def min_absorb1)
  obtain i y where "row_desc_cols ?b ?n 0 2 x = Some (i, y)" "wf_ctx y"
    using row_desc_cols_safe [of x 2 ?b 0 ?n] x(2) g(2) assms(2) by (auto simp: safe_step_def)
  with r have w: "wf_ctx ?x" by simp
  note fr = ring_frameD [OF enqueued(2) [OF e w]]
  show "received s (d\<lparr>input_len := 0\<rparr>) (mk_event PQ_EVENT_ROW_DESCRIPTION (PRowDesc ?n)) \<and>
      take ?n (col_name_scratch (d\<lparr>input_len := 0\<rparr>)) = map column_name cols \<and>
      take ?n (col_scratch (d\<lparr>input_len := 0\<rparr>)) = map2 column_entry [0..<?n] cols"
    using received_from [OF x(1) e w] fr by (simp add: ring_items_def)
qed

theorem row_description_delivered_witness:
  "delivers roomy_env (pqwire_send_row_description roomy_env started_server
       (Some [\<lparr>cd_name = Some (text_of ''id''), cd_oid = 23, cd_format = 1\<rparr>])
       (length [\<lparr>cd_name = Some (text_of ''id''), cd_oid = 23, cd_format = 1\<rparr> :: bytes pq_column_desc]))
     (fresh_ctx PQWIRE_ROLE_CLIENT) (\<lambda>s'.
     received (fresh_ctx PQWIRE_ROLE_CLIENT) s' (mk_event PQ_EVENT_ROW_DESCRIPTION (PRowDesc
       (length [\<lparr>cd_name = Some (text_of ''id''), cd_oid = 23, cd_format = 1\<rparr> :: bytes pq_column_desc]))) \<and>
     take (length [\<lparr>cd_name = Some (text_of ''id''), cd_oid = 23, cd_format = 1\<rparr> :: bytes pq_column_desc])
       (col_name_scratch s') = map column_name [\<lparr>cd_name = Some (text_of ''id''), cd_oid = 23, cd_format = 1\<rparr>] \<and>
     take (length [\<lparr>cd_name = Some (text_of ''id''), cd_oid = 23, cd_format = 1\<rparr> :: bytes pq_column_desc])
       (col_scratch s') = map2 column_entry
         [0..<length [\<lparr>cd_name = Some (text_of ''id''), cd_oid = 23, cd_format = 1\<rparr> :: bytes pq_column_desc]]
         [\<lparr>cd_name = Some (text_of ''id''), cd_oid = 23, cd_format = 1\<rparr>])"
  by (rule row_description_delivered)
    (simp_all add: is_cstr_def limit_defs row_desc_body_def wire_simps)


lemma row_ptrs_None: "i < length vs \<Longrightarrow> vs ! i = None \<Longrightarrow> row_ptrs at vs ! i = NullPtr"
  by (induction at vs arbitrary: i rule: row_ptrs.induct)
    (auto simp: nth_Cons split: nat.split nat.split_asm)

text \<open>The columns of a delivered DataRow read back the values from the peer's arena.\<close>

definition reads_columns :: "pqwire_ctx \<Rightarrow> pq_data_row \<Rightarrow> bytes option list \<Rightarrow> bool" where
  "reads_columns s r vs \<longleftrightarrow>
     dr_n_columns r = length vs \<and>
     (\<forall>i < length vs. dr_len r ! i = length (c_str (vs ! i)) \<and>
        (case vs ! i of
           None \<Rightarrow> dr_data r ! i = NullPtr
         | Some d \<Rightarrow> (\<exists>p. dr_data r ! i = Arena p \<and> map (row_arena s) [p..<p + length d] = d)))"

text \<open>
  C17. DataRow round trip: the columns of the client's event point to copies of the values in its
  row arena, with the right lengths, and SQL NULL is a \<open>NULL\<close> pointer, as long as the arena
  has room for the row and the message fits the first allocation of the serialiser
  (64 + 256 bytes per column).
\<close>

theorem data_row_delivered:
  fixes n :: u16
  assumes "sender E c" "value_args (unat n) lens vals vs" "unat n \<le> PQWIRE_MAX_ROW_COLUMNS"
    "length (row_body vs) \<le> 64 + 256 * unat n"
    "row_arena_used s + length (concat (map c_str vs)) \<le> PQWIRE_ROW_ARENA"
    "accepts s PQWIRE_ROLE_CLIENT (length (row_body vs))"
  shows "delivers E (pqwire_send_data_row_multi E c lens vals n) s (\<lambda>s'.
     \<exists>r. received s s' (mk_event PQ_EVENT_DATA_ROW (PDataRow r)) \<and> reads_columns s' r vs)"
proof (rule deliver_msg [OF _ assms(1,6)])
  let ?b = "row_body vs" and ?n = "length vs"
  have v: "\<forall>v \<in> set vs. length (c_str v) < 2 ^ 31" "?n = unat n"
    using assms(2) by (auto simp: value_args_def in_set_conv_nth)
  show "sends E c (pqwire_send_data_row_multi E c lens vals n) (wire_msg (ascii (CHR ''D'')) ?b)"
    using send_data_row_multi_sends [of c E n lens vals vs] assms(1,2,4) by (auto simp: sender_def)
  fix x d assume x: "loaded s (wire_msg (ascii (CHR ''D'')) ?b) x" "wf_ctx x"
    "handle_message x (ascii (CHR ''D'')) 5 ?b = Some d"
  note L = loadedD [OF x(1)]
  have f: "field_at ?b 0 (wire_counted wire_value vs @ [])" by (simp add: row_body_def)
  note g = wire_counted_at [OF f]
  let ?u = "row_arena_used s"
  let ?a = "arena_fill (row_arena s) ?u (concat (map c_str vs))"
  let ?x = "x\<lparr>row_arena := ?a, row_arena_used := ?u + length (concat (map c_str vs))\<rparr>"
  let ?r = "(row_fill 0 ?u vs zero_data_row)\<lparr>dr_n_columns := ?n\<rparr>"
  have cols: "data_row_cols ?b ?n 0 2 zero_data_row x = Some (?n, row_fill 0 ?u vs zero_data_row, ?x)"
    using data_row_wire [OF g(3) [unfolded add_0] v(1), of 0 ?n zero_data_row x] assms(3,5) v(2) L(13,14)
    by (simp add: row_holds_def zero_data_row_def)
  have n16: "unat (of_nat ?n :: u16) = ?n" using assms(3) v(2) by (simp add: unat_count limit_defs)
  have e: "enqueue_event ?x (mk_event PQ_EVENT_DATA_ROW (PDataRow ?r)) = Some d"
    using x(3) L(1) assms(3,6) g(1,2) n16 cols v(2)
    by (simp add: message_defs parse_data_row_def accepts_def min_absorb1)
  have w: "wf_ctx ?x" using x(2) assms(5) L(14) by (auto simp: wf_defs ring_items_def)
  have rc: "reads_columns (d\<lparr>input_len := 0\<rparr>) ?r vs"
  proof -
    have a: "row_arena d = ?a" using ring_frameD [OF enqueued(2) [OF e w]] by simp
    have "case vs ! i of None \<Rightarrow> row_ptrs ?u vs ! i = NullPtr
        | Some w \<Rightarrow> \<exists>p. row_ptrs ?u vs ! i = Arena p \<and> map ?a [p..<p + length w] = w" if "i < ?n" for i
      using row_ptrs_data [OF that] row_ptrs_None [OF that] by (auto split: option.split)
    then show ?thesis using a by (simp add: reads_columns_def row_fill_def Let_def nth_append cong: option.case_cong)
  qed
  have "received s (d\<lparr>input_len := 0\<rparr>) (mk_event PQ_EVENT_DATA_ROW (PDataRow ?r))"
    using received_from [OF x(1) e w] by simp
  with rc show "\<exists>r. received s (d\<lparr>input_len := 0\<rparr>) (mk_event PQ_EVENT_DATA_ROW (PDataRow r)) \<and>
      reads_columns (d\<lparr>input_len := 0\<rparr>) r vs" by blast
qed

theorem data_row_delivered_witness:
  "delivers roomy_env (pqwire_send_data_row_multi roomy_env started_server (Some [2, - 1])
       (Some [Some [65, 66], None]) 2) (fresh_ctx PQWIRE_ROLE_CLIENT) (\<lambda>s'.
     \<exists>r. received (fresh_ctx PQWIRE_ROLE_CLIENT) s' (mk_event PQ_EVENT_DATA_ROW (PDataRow r)) \<and>
         reads_columns s' r [Some [65, 66], None])"
  by (rule data_row_delivered)
    (auto simp: limit_defs row_body_def wire_simps value_args_def arg_at_def less_2_cases_iff
      PQWIRE_ROW_ARENA_def)

section \<open>Round trip: StartupMessage\<close>

lemma parse_startup_wire:
  assumes "wf_ctx x" "role x = PQWIRE_ROLE_SERVER" "is_cstr user" "is_cstr db"
  obtains y where "parse_startup_body x (startup_body user db) = Some y" "wf_ctx y"
    "ring_items y = keep_last (event_queue_size x)
       (ring_items x @ [mk_event PQ_EVENT_STARTUP (PStartup UserScratch DbScratch)])"
    "parse_frame (x\<lparr>startup_seen := True\<rparr>) y" "user_scratch y = take 127 user" "db_scratch y = take 127 db"
    "proto_state y = PROTO_STATE_AUTHENTICATING" "startup_seen y"
proof -
  let ?ev = "mk_event PQ_EVENT_STARTUP (PStartup UserScratch DbScratch)"
  let ?x = "x\<lparr>user_scratch := take 127 user, db_scratch := take 127 db\<rparr>"
  have wx: "wf_ctx ?x" using assms by (simp add: wf_ctx_same fits_def)
  obtain y where y: "enqueue_event ?x ?ev = Some y" "wf_ctx y"
    using safe_enqueue [OF wx, of ?ev] by (auto simp: safe_step_def)
  note q = enqueued [OF y(1) wx] and fr = ring_frameD [OF enqueued(2) [OF y(1) wx]]
  let ?y = "y\<lparr>startup_seen := True, proto_state := PROTO_STATE_AUTHENTICATING\<rparr>"
  have "parse_startup_body x (startup_body user db) = Some ?y"
    using assms(2-4) y(1) fr by (simp add: parse_startup_body_def Let_def startup_params_wire copy_cstr_def)
  moreover have "ring_items ?y = ring_items y" by (simp add: ring_items_def)
  ultimately show thesis
    using that [of ?y] y(2) q(1) fr by (simp add: wf_ctx_same parse_frame_def)
qed

text \<open>One complete StartupMessage in the buffer of a new server is parsed and taken off.\<close>

lemma startup_step_wire:
  assumes x: "loaded s (startup_msg user db) x" and "wf_ctx s" "512 \<le> max_message_size s"
    and "length user + length db < 487"
    and y: "parse_startup_body x (startup_body user db) = Some y" "parse_frame (x\<lparr>startup_seen := True\<rparr>) y"
  shows "startup_step x = Some (Continue (y\<lparr>input_len := 0\<rparr>))"
proof -
  let ?b = "startup_body user db" and ?m = "startup_msg user db"
  let ?n = "of_nat (length ?b + 4) :: u32"
  note L = loadedD [OF x]
  have lb: "length ?b = length user + length db + 21" by (simp add: startup_body_def wire_str_def)
  have lm: "length ?m = length ?b + 4" by (simp add: startup_msg_def)
  have n: "unat ?n = length ?b + 4" using lb assms(4) by (intro unat_of_nat_small) simp
  have f: "field_at ?m 0 (wr32_be ?n @ ?b)" by (simp add: startup_msg_def)
  note g = be32.dec_field_at [OF f]
  have hd: "rd32_be (input_buf x) 0 = Some ?n"
    using rd32_be_take [of 0 "length ?m" "input_buf x"] L(9,10) lm g(1) by simp
  have body: "mem_read (input_buf x) 4 (length ?b) = Some ?b"
    using pending_field [OF x, of 4 ?b "length ?b"] g(2) lm by simp
  have fy: "input_buf y = input_buf x" "input_len y = input_len x" using y(2) by (simp_all add: parse_frame_def)
  have sh: "shift_input y (length ?b + 4) 0 = Some y"
    using L(10) lm fy by (intro shift_nothing) simp
  show ?thesis
    using assms(3,4) L(6,8) lm lb hd n body y(1) sh fy by (simp add: startup_step_def add.commute)
qed

text \<open>
  C20. StartupMessage round trip: user and database arrive in the server's scratch buffers (cut at
  127 bytes), one Startup event is queued, and the server accepts typed messages from then
  on, in \<open>PROTO_STATE_AUTHENTICATING\<close>.
\<close>

theorem startup_delivered:
  fixes user db :: "bytes option"
  assumes "sender E c" "role c = PQWIRE_ROLE_CLIENT"
    "wf_ctx s" "ctx_ok s" "pending_input s = []" "role s = PQWIRE_ROLE_SERVER" "\<not> startup_seen s"
    "512 \<le> max_message_size s"
    "is_cstr (c_str user)" "is_cstr (c_str db)" "length (c_str user) + length (c_str db) < 487"
  shows "delivers E (pqwire_send_startup E c user db) s (\<lambda>s'.
     received s s' (mk_event PQ_EVENT_STARTUP (PStartup UserScratch DbScratch)) \<and> idle s' \<and>
     user_scratch s' = take 127 (c_str user) \<and> db_scratch s' = take 127 (c_str db) \<and>
     proto_state s' = PROTO_STATE_AUTHENTICATING)"
proof -
  let ?m = "startup_msg (c_str user) (c_str db)"
  have "sends E c (pqwire_send_startup E c user db) ?m"
    using send_startup_cases [where c = c and user = user and db = db and E = E] assms(1,2,11)
    by (auto simp: sender_def)
  then obtain c' where c': "pqwire_send_startup E c user db = Some (0, c')" "output_bytes c' = ?m"
    using assms(1) by (auto simp: sends_def sender_def)
  have "can_grow E" using assms(1) by (simp add: sender_def)
  from feed_loads [OF assms(3,4,5) this] obtain x where x: "loaded s ?m x"
    "pqwire_feed_input E s (Some ?m) = map_option (map_option (\<lambda>c. (length ?m, c))) (feed_loop x)" .
  note L = loadedD [OF x(1)] and wf = loaded_wf [OF x(1) assms(3)]
  obtain y where y: "parse_startup_body x (startup_body (c_str user) (c_str db)) = Some y" "wf_ctx y"
    "ring_items y = keep_last (event_queue_size x)
       (ring_items x @ [mk_event PQ_EVENT_STARTUP (PStartup UserScratch DbScratch)])"
    "parse_frame (x\<lparr>startup_seen := True\<rparr>) y" "user_scratch y = take 127 (c_str user)"
    "db_scratch y = take 127 (c_str db)" "proto_state y = PROTO_STATE_AUTHENTICATING" "startup_seen y"
    using parse_startup_wire [OF wf _ assms(9,10)] L(1) assms(6) by metis
  let ?z = "y\<lparr>input_len := 0\<rparr>"
  have "startup_step x = Some (Continue ?z)" by (rule startup_step_wire [OF x(1) assms(3,8,11) y(1,4)])
  then have "feed_loop x = Some (Some ?z)"
    using assms(6,7) L(1,7) by (subst feed_loop.simps) (simp add: feed_step_def feed_loop_empty)
  then have "pqwire_feed_input E s (Some ?m) = Some (Some (length ?m, ?z))" using x(2) by simp
  moreover have "received s ?z (mk_event PQ_EVENT_STARTUP (PStartup UserScratch DbScratch))"
    using y(3) L(2,3) by (simp add: received_def)
  moreover have "idle ?z"
    using assms(4) L(5) y(2,4,8) by (simp add: idle_def wf_ctx_empty ctx_ok_def pending_input_def parse_frame_def)
  ultimately show ?thesis using c' y(5-7) unfolding delivers_def by auto
qed

theorem startup_delivered_witness:
  "delivers roomy_env (pqwire_send_startup roomy_env (fresh_ctx PQWIRE_ROLE_CLIENT) (Some (text_of ''alice'')) None)
     (fresh_ctx PQWIRE_ROLE_SERVER) (\<lambda>s'.
     received (fresh_ctx PQWIRE_ROLE_SERVER) s' (mk_event PQ_EVENT_STARTUP (PStartup UserScratch DbScratch)) \<and>
     idle s' \<and> user_scratch s' = take 127 (c_str (Some (text_of ''alice''))) \<and>
     db_scratch s' = take 127 (c_str None) \<and> proto_state s' = PROTO_STATE_AUTHENTICATING)"
  by (rule startup_delivered) (simp_all add: is_cstr_def)


section \<open>Round trips: the short messages together\<close>

text \<open>
  Describe and Close round trip: the target byte and the name arrive unchanged, for names
  that fit the event's field.
\<close>

theorem describe_close_roundtrip:
  assumes "sender E c" "is_cstr (c_str name)" "length (c_str name) < PQWIRE_MAX_STMT_NAME"
    "accepts s PQWIRE_ROLE_SERVER (length (c_str name) + 2)"
  shows "delivers E (pqwire_send_describe E c t name) s (\<lambda>s'. received s s'
      (mk_event PQ_EVENT_DESCRIBE (PDescribe \<lparr>de_target = t, de_name = c_str name\<rparr>))) \<and>
    delivers E (pqwire_send_close E c t name) s (\<lambda>s'. received s s'
      (mk_event PQ_EVENT_CLOSE (PClose \<lparr>cl_target = t, cl_name = c_str name\<rparr>)))"
  using describe_close_delivered [OF assms] by blast

theorem describe_close_roundtrip_witness:
  "delivers roomy_env (pqwire_send_describe roomy_env (fresh_ctx PQWIRE_ROLE_CLIENT) 83 (Some (text_of ''s1'')))
     started_server (\<lambda>s'. received started_server s'
      (mk_event PQ_EVENT_DESCRIBE (PDescribe \<lparr>de_target = 83, de_name = c_str (Some (text_of ''s1''))\<rparr>))) \<and>
   delivers roomy_env (pqwire_send_close roomy_env (fresh_ctx PQWIRE_ROLE_CLIENT) 83 (Some (text_of ''s1'')))
     started_server (\<lambda>s'. received started_server s'
      (mk_event PQ_EVENT_CLOSE (PClose \<lparr>cl_target = 83, cl_name = c_str (Some (text_of ''s1''))\<rparr>)))"
  by (rule describe_close_roundtrip) (simp_all add: is_cstr_def limit_defs)

text \<open>
  Sync, Flush and Terminate arrive at the server as the events of the same name.
\<close>

theorem control_roundtrip:
  assumes "sender E c" "accepts s PQWIRE_ROLE_SERVER 0"
  shows "delivers E (pqwire_send_sync E c) s (\<lambda>s'. received s s' (plain_event PQ_EVENT_SYNC)) \<and>
    delivers E (pqwire_send_flush E c) s (\<lambda>s'. received s s' (plain_event PQ_EVENT_FLUSH)) \<and>
    delivers E (pqwire_send_terminate E c) s (\<lambda>s'. received s s' (plain_event PQ_EVENT_TERMINATE))"
  using control_delivered [OF assms] by blast

theorem control_roundtrip_witness:
  "delivers roomy_env (pqwire_send_sync roomy_env (fresh_ctx PQWIRE_ROLE_CLIENT)) started_server
     (\<lambda>s'. received started_server s' (plain_event PQ_EVENT_SYNC)) \<and>
   delivers roomy_env (pqwire_send_flush roomy_env (fresh_ctx PQWIRE_ROLE_CLIENT)) started_server
     (\<lambda>s'. received started_server s' (plain_event PQ_EVENT_FLUSH)) \<and>
   delivers roomy_env (pqwire_send_terminate roomy_env (fresh_ctx PQWIRE_ROLE_CLIENT)) started_server
     (\<lambda>s'. received started_server s' (plain_event PQ_EVENT_TERMINATE))"
  by (rule control_roundtrip) simp_all

text \<open>
  C25. AuthenticationOk and ReadyForQuery drive the client's state machine, ParseComplete,
  BindComplete, CloseComplete and NoData only queue their events.
\<close>

theorem backend_control_roundtrip:
  assumes "sender E c" "accepts s PQWIRE_ROLE_CLIENT 4"
  shows "delivers E (pqwire_send_auth_ok E c) s (\<lambda>s'.
      received s s' (plain_event PQ_EVENT_AUTHENTICATION_OK) \<and> auth_state s' = AUTH_STATE_DONE) \<and>
    delivers E (pqwire_send_ready_for_query E c) s (\<lambda>s'.
      received s s' (plain_event PQ_EVENT_READY_FOR_QUERY) \<and> proto_state s' = PROTO_STATE_READY) \<and>
    delivers E (pqwire_send_parse_complete E c) s (\<lambda>s'. received s s' (plain_event PQ_EVENT_PARSE_COMPLETE)) \<and>
    delivers E (pqwire_send_bind_complete E c) s (\<lambda>s'. received s s' (plain_event PQ_EVENT_BIND_COMPLETE)) \<and>
    delivers E (pqwire_send_close_complete E c) s (\<lambda>s'. received s s' (plain_event PQ_EVENT_CLOSE_COMPLETE)) \<and>
    delivers E (pqwire_send_no_data E c) s (\<lambda>s'. received s s' (plain_event PQ_EVENT_NO_DATA))"
proof -
  have "accepts s PQWIRE_ROLE_CLIENT 1" "accepts s PQWIRE_ROLE_CLIENT 0"
    using assms(2) by (simp_all add: accepts_def)
  with auth_ok_delivered [OF assms] ready_for_query_delivered [OF assms(1)] completion_delivered [OF assms(1)]
  show ?thesis by blast
qed

theorem backend_control_roundtrip_witness:
  "delivers roomy_env (pqwire_send_auth_ok roomy_env started_server) (fresh_ctx PQWIRE_ROLE_CLIENT) (\<lambda>s'.
      received (fresh_ctx PQWIRE_ROLE_CLIENT) s' (plain_event PQ_EVENT_AUTHENTICATION_OK) \<and>
      auth_state s' = AUTH_STATE_DONE)"
  using backend_control_roundtrip [of roomy_env started_server "fresh_ctx PQWIRE_ROLE_CLIENT"] by simp

end
