(* ===== verification/Params.thy ===== *)
theory Params
  imports Roundtrip
begin

text \<open>
  Owned Bind parameters and identity injection (\<open>src/src/pqwire.c\<close>, lines 1570-1868): the
  parameter slots of \<open>pqwire_param_t\<close>, \<open>pqwire_bind_inject_identity\<close> (copy all parameters,
  replace one), \<open>pqwire_send_bind_params\<close>, \<open>pqwire_bind_rewrite_identity_zerocopy\<close> (build
  the whole message in a caller's buffer), and \<open>pqwire_prepared_from_parse\<close>.

  A Bind event holds pointers; \<open>deref c p n\<close> reads \<open>n\<close> bytes through one in the context
  \<open>c\<close> the event came from, and is a fault when the object is gone or too short. A block
  owned by a slot is modelled by its bytes; releasing it has no other effect.
\<close>

section \<open>Parameter slots\<close>

record pqwire_param =
  p_length :: u32
  p_data :: "bytes option"
  p_owned :: bool
  p_format :: u16

definition deref :: "pqwire_ctx \<Rightarrow> data_ptr \<Rightarrow> nat \<Rightarrow> bytes option" where
  "deref c p n =
     (if n = 0 then Some []
      else case p of
        NullPtr \<Rightarrow> None
      | InBuf e off \<Rightarrow> if e = input_epoch c then mem_read (input_buf c) off n else None
      | Arena off \<Rightarrow> if off + n \<le> PQWIRE_ROW_ARENA then Some (map (row_arena c) [off..<off + n]) else None)"

definition pqwire_param_clear :: "pqwire_param \<Rightarrow> pqwire_param" where
  "pqwire_param_clear p = p\<lparr>p_data := None, p_length := - 1, p_owned := False, p_format := 0\<rparr>"

text \<open>\<open>malloc(0)\<close> may or may not return a block; the environment decides.\<close>

definition pqwire_param_set_text ::
  "env \<Rightarrow> pqwire_param \<Rightarrow> bytes option \<Rightarrow> int \<times> pqwire_param" where
  "pqwire_param_set_text E p text =
     (case text of
        None \<Rightarrow> (- 1, p)
      | Some t \<Rightarrow>
          let p = pqwire_param_clear p; len = length t; d = alloc_ok E (AllocBytes len)
          in if \<not> d \<and> len > 0 then (- 1, p)
             else (0, p\<lparr>p_data := (if d then Some t else None), p_length := of_nat len,
                        p_owned := True, p_format := 0\<rparr>))"

definition pqwire_param_set_binary ::
  "env \<Rightarrow> pqwire_param \<Rightarrow> bytes option \<Rightarrow> nat \<Rightarrow> (int \<times> pqwire_param) option" where
  "pqwire_param_set_binary E p data len =
     (let p = pqwire_param_clear p
      in if len > 0 \<and> data = None then Some (- 1, p)
         else if len > 0 \<and> \<not> alloc_ok E (AllocBytes len) then Some (- 1, p)
         else do {
           d \<leftarrow> (if len > 0 then map_option Some (mem_read (the data) 0 len) else Some None);
           Some (0, p\<lparr>p_data := d, p_length := of_nat len, p_owned := True, p_format := 1\<rparr>)
         })"

definition pqwire_param_set_null :: "pqwire_param \<Rightarrow> pqwire_param" where
  "pqwire_param_set_null p = (pqwire_param_clear p)\<lparr>p_length := - 1, p_format := 0\<rparr>"

section \<open>Identity injection into owned slots\<close>

text \<open>The body of the loop for parameter \<open>i\<close> (lines 1657-1692).\<close>

definition inject_one ::
  "env \<Rightarrow> pqwire_ctx \<Rightarrow> pq_bind \<Rightarrow> nat \<Rightarrow> bytes \<Rightarrow> bool \<Rightarrow> nat \<Rightarrow> pqwire_param \<Rightarrow> (int \<times> pqwire_param) option"
where
  "inject_one E c b slot identity as_binary i p = do {
     v \<leftarrow> peek (bi_params b) i;
     let p = pqwire_param_clear p;
     let len = unat (pv_length v);
     if i = slot
     then if as_binary then pqwire_param_set_binary E p (Some identity) (length identity)
          else Some (pqwire_param_set_text E p (Some identity))
     else if sint (pv_length v) < 0 then Some (0, (pqwire_param_set_null p)\<lparr>p_format := pv_format v\<rparr>)
     else if pv_format v = 1
     then do {
       d \<leftarrow> (if pv_data v = NullPtr then Some None else map_option Some (deref c (pv_data v) len));
       pqwire_param_set_binary E p d len
     }
     else if \<not> alloc_ok E (AllocBytes (len + 1)) then Some (- 1, p)
     else do {
       bs \<leftarrow> deref c (pv_data v) len;
       Some (pqwire_param_set_text E p (Some (cstr_of (bs @ [0]))))
     }
   }"

function inject_loop ::
  "env \<Rightarrow> pqwire_ctx \<Rightarrow> pq_bind \<Rightarrow> nat \<Rightarrow> bytes \<Rightarrow> bool \<Rightarrow> nat \<Rightarrow> nat \<Rightarrow> pqwire_param list \<Rightarrow>
   (int \<times> pqwire_param list) option"
where
  "inject_loop E c b slot identity as_binary i n ps =
     (if i < n
      then case peek ps i of
             None \<Rightarrow> None
           | Some p \<Rightarrow>
               (case inject_one E c b slot identity as_binary i p of
                  None \<Rightarrow> None
                | Some (rc, p) \<Rightarrow>
                    if rc \<noteq> 0 then Some (- 1, ps[i := p])
                    else inject_loop E c b slot identity as_binary (Suc i) n (ps[i := p]))
      else Some (0, ps))"
  by pat_completeness auto
termination
  by (relation "measure (\<lambda>(E, c, b, slot, identity, as_binary, i, n, ps). n - i)") auto

declare inject_loop.simps [simp del]

definition pqwire_bind_inject_identity ::
  "env \<Rightarrow> pqwire_ctx \<Rightarrow> pq_bind option \<Rightarrow> pqwire_param list \<Rightarrow> u16 \<Rightarrow> bytes option \<Rightarrow> bool \<Rightarrow>
   (int \<times> pqwire_param list) option" where
  "pqwire_bind_inject_identity E c bnd out_params slot identity as_binary =
     (case (bnd, identity) of
        (Some b, Some identity) \<Rightarrow>
          if unat slot \<ge> bi_n_params b \<and> bi_n_params b > 0 then Some (- 1, out_params)
          else if bi_n_params b = 0 then Some (- 1, out_params)
          else inject_loop E c b (unat slot) identity as_binary 0 (bi_n_params b) out_params
      | _ \<Rightarrow> Some (- 1, out_params))"

definition pqwire_send_bind_params ::
  "env \<Rightarrow> pqwire_ctx \<Rightarrow> bytes option \<Rightarrow> bytes option \<Rightarrow> pqwire_param list option \<Rightarrow> u16 \<Rightarrow>
   u16 list option \<Rightarrow> u16 \<Rightarrow> (int \<times> pqwire_ctx) option" where
  "pqwire_send_bind_params E c portal statement params n_params result_formats n_result_formats =
     (if params = None \<and> n_params > 0 then Some (- 1, c)
      else if unat n_params > PQWIRE_MAX_BIND_PARAMS then Some (- 1, c)
      else do {
        ps \<leftarrow> (if n_params > 0 then mem_read (the params) 0 (unat n_params) else Some []);
        pqwire_send_bind E c portal statement (Some (map p_format ps)) n_params
          (Some (map p_length ps)) (Some (map p_data ps)) n_params result_formats n_result_formats
      })"

section \<open>Zero-copy rewrite\<close>

text \<open>
  The macros \<open>PUT_BYTES\<close>, \<open>PUT_U16\<close>, \<open>PUT_U32\<close>: store at the cursor, or \<open>return -1\<close>
  (\<open>Some None\<close>) when the caller's buffer is full.
\<close>

definition zput :: "nat \<Rightarrow> bytes \<Rightarrow> bytes \<Rightarrow> (bytes \<Rightarrow> bytes option option) \<Rightarrow> bytes option option" where
  "zput cap acc bs k = (if length acc + length bs > cap then Some None else k (acc @ bs))"

text \<open>The formats of the rewritten message, stored in the local array \<open>formats[32]\<close>.\<close>

function zc_formats :: "pq_bind \<Rightarrow> nat \<Rightarrow> bool \<Rightarrow> nat \<Rightarrow> nat \<Rightarrow> u16 list \<Rightarrow> u16 list option" where
  "zc_formats b slot as_binary i n arr =
     (if i < n
      then case (if i = slot then Some (if as_binary then 1 else 0)
                 else param_format (bi_n_formats b) (bi_formats b) i) of
             None \<Rightarrow> None
           | Some f \<Rightarrow>
               (case store arr i f of
                  None \<Rightarrow> None
                | Some arr \<Rightarrow> zc_formats b slot as_binary (Suc i) n arr)
      else Some arr)"
  by pat_completeness auto
termination
  by (relation "measure (\<lambda>(b, slot, as_binary, i, n, arr). n - i)") auto

declare zc_formats.simps [simp del]

text \<open>\<open>for (; i < n; i++) PUT_U16(arr[i]);\<close>.\<close>

function zc_put_array :: "nat \<Rightarrow> u16 list \<Rightarrow> nat \<Rightarrow> nat \<Rightarrow> bytes \<Rightarrow> bytes option option" where
  "zc_put_array cap arr i n acc =
     (if i < n
      then case peek arr i of
             None \<Rightarrow> None
           | Some v \<Rightarrow>
               if length acc + length (wr16_be v) > cap then Some None
               else zc_put_array cap arr (Suc i) n (acc @ wr16_be v)
      else Some (Some acc))"
  by pat_completeness auto
termination
  by (relation "measure (\<lambda>(cap, arr, i, n, acc). n - i)") auto

declare zc_put_array.simps [simp del]

text \<open>Parameter \<open>i\<close>: the identity, NULL, or a copy of the bytes the view points to.\<close>

definition zc_value ::
  "pqwire_ctx \<Rightarrow> pq_bind \<Rightarrow> nat \<Rightarrow> bytes \<Rightarrow> nat \<Rightarrow> nat \<Rightarrow> bytes \<Rightarrow> bytes option option" where
  "zc_value c b slot identity cap i acc =
     (if i = slot
      then zput cap acc (wr32_be (of_nat (length identity))) (\<lambda>acc.
           zput cap acc identity (\<lambda>acc. Some (Some acc)))
      else do {
        v \<leftarrow> peek (bi_params b) i;
        if sint (pv_length v) < 0 then zput cap acc (wr32_be 0xFFFFFFFF) (\<lambda>acc. Some (Some acc))
        else zput cap acc (wr32_be (pv_length v)) (\<lambda>acc.
          if length acc + unat (pv_length v) > cap then Some None
          else do {
            bs \<leftarrow> deref c (pv_data v) (unat (pv_length v));
            Some (Some (acc @ bs))
          })
      })"

function zc_values ::
  "pqwire_ctx \<Rightarrow> pq_bind \<Rightarrow> nat \<Rightarrow> bytes \<Rightarrow> nat \<Rightarrow> nat \<Rightarrow> nat \<Rightarrow> bytes \<Rightarrow> bytes option option" where
  "zc_values c b slot identity cap i n acc =
     (if i < n
      then case zc_value c b slot identity cap i acc of
             None \<Rightarrow> None
           | Some None \<Rightarrow> Some None
           | Some (Some acc) \<Rightarrow> zc_values c b slot identity cap (Suc i) n acc
      else Some (Some acc))"
  by pat_completeness auto
termination
  by (relation "measure (\<lambda>(c, b, slot, identity, cap, i, n, acc). n - i)") auto

declare zc_values.simps [simp del]

text \<open>
  \<open>pqwire_bind_rewrite_identity_zerocopy\<close> into a buffer of \<open>out_cap\<close> bytes: the message
  (\<open>*out_len\<close> is its length), \<open>Some None\<close> for -1. The first five bytes of the buffer are
  left free at first and filled with the header at the end.
\<close>

definition pqwire_bind_rewrite_identity_zerocopy ::
  "pqwire_ctx \<Rightarrow> pq_bind option \<Rightarrow> bytes option \<Rightarrow> bytes option \<Rightarrow> u16 \<Rightarrow> bytes option \<Rightarrow> bool \<Rightarrow> nat \<Rightarrow>
   bytes option option" where
  "pqwire_bind_rewrite_identity_zerocopy c bnd portal statement slot identity as_binary out_cap =
     (case (bnd, identity) of
        (Some b, Some identity) \<Rightarrow>
          if bi_n_params b = 0 \<or> unat slot \<ge> bi_n_params b then Some None
          else if 5 > out_cap then Some None
          else
            zput out_cap (replicate 5 0) (c_str portal @ [0]) (\<lambda>acc.
            zput out_cap acc (c_str statement @ [0]) (\<lambda>acc. do {
              let n = bi_n_params b;
              formats \<leftarrow> zc_formats b (unat slot) as_binary 0 n (replicate PQWIRE_MAX_BIND_PARAMS 0);
              zput out_cap acc (wr16_be (of_nat n)) (\<lambda>acc.
                case zc_put_array out_cap formats 0 n acc of
                  None \<Rightarrow> None
                | Some None \<Rightarrow> Some None
                | Some (Some acc) \<Rightarrow>
                    zput out_cap acc (wr16_be (of_nat n)) (\<lambda>acc.
                      case zc_values c b (unat slot) identity out_cap 0 n acc of
                        None \<Rightarrow> None
                      | Some None \<Rightarrow> Some None
                      | Some (Some acc) \<Rightarrow>
                          zput out_cap acc (wr16_be (of_nat (bi_n_result_formats b))) (\<lambda>acc.
                            case zc_put_array out_cap (bi_result_formats b) 0 (bi_n_result_formats b) acc of
                              None \<Rightarrow> None
                            | Some None \<Rightarrow> Some None
                            | Some (Some acc) \<Rightarrow>
                                map_option Some
                                  (poke acc 0 (ascii (CHR ''B'') # wr32_be (of_nat (length acc - 1)))))))
            }))
      | _ \<Rightarrow> Some None)"

definition pqwire_send_bind_rewrite_identity ::
  "env \<Rightarrow> pqwire_ctx \<Rightarrow> pqwire_ctx \<Rightarrow> pq_bind option \<Rightarrow> bytes option \<Rightarrow> bytes option \<Rightarrow> u16 \<Rightarrow>
   bytes option \<Rightarrow> bool \<Rightarrow> (int \<times> pqwire_ctx) option" where
  "pqwire_send_bind_rewrite_identity E c src bnd portal statement slot identity as_binary =
     (if \<not> ctx_ok c then Some (- 1, c)
      else do {
        r \<leftarrow> pqwire_bind_rewrite_identity_zerocopy src bnd portal statement slot identity as_binary 8192;
        case r of
          None \<Rightarrow> Some (- 1, c)
        | Some buf \<Rightarrow> do { c \<leftarrow> append_output E c buf; Some (0, c) }
      })"

section \<open>Prepared statements\<close>

record pqwire_prepared_stmt =
  ps_name :: bytes
  ps_query :: bytes
  ps_n_param_types :: nat
  ps_param_type_oids :: "u32 list"
  ps_identity_param_slot :: int

definition pqwire_prepared_from_parse :: "pq_parse option \<Rightarrow> (int \<times> pqwire_prepared_stmt option) option" where
  "pqwire_prepared_from_parse parse =
     (case parse of
        None \<Rightarrow> Some (- 1, None)
      | Some p \<Rightarrow> do {
          let n = min (pa_n_param_types p) PQWIRE_MAX_PARAM_TYPES;
          oids \<leftarrow> mem_read (pa_param_type_oids p) 0 n;
          arr \<leftarrow> poke (replicate PQWIRE_MAX_PARAM_TYPES 0) 0 oids;
          Some (0, Some \<lparr>ps_name = copy_cstr PQWIRE_MAX_STMT_NAME (Some (pa_statement p)),
                         ps_query = copy_cstr PQWIRE_MAX_QUERY_LEN (Some (pa_query p)),
                         ps_n_param_types = n, ps_param_type_oids = arr,
                         ps_identity_param_slot = - 1\<rparr>)
        })"

section \<open>The zero-copy rewrite is exact\<close>

definition rewritten_formats :: "pq_bind \<Rightarrow> nat \<Rightarrow> bool \<Rightarrow> u16 list" where
  "rewritten_formats b slot as_binary =
     map (\<lambda>i. if i = slot then (if as_binary then 1 else 0)
              else the (param_format (bi_n_formats b) (bi_formats b) i)) [0..<bi_n_params b]"

lemma length_rewritten_formats [simp]: "length (rewritten_formats b slot bin) = bi_n_params b"
  by (simp add: rewritten_formats_def)

lemma zc_formats_exact:
  assumes "wf_bind b" "i \<le> bi_n_params b" "bi_n_params b \<le> length arr"
  shows "zc_formats b slot bin i (bi_n_params b) arr =
     Some (take i arr @ drop i (rewritten_formats b slot bin) @ drop (bi_n_params b) arr)"
  using assms(2,3)
proof (induction "bi_n_params b - i" arbitrary: i arr)
  case 0
  then show ?case by (subst zc_formats.simps) simp
next
  case (Suc k)
  let ?n = "bi_n_params b" and ?fs = "rewritten_formats b slot bin"
  have i: "i < ?n" "k = ?n - Suc i" using Suc.hyps(2) by simp_all
  obtain g where g: "param_format (bi_n_formats b) (bi_formats b) i = Some g"
    using param_format_safe [of "bi_n_formats b" "bi_formats b" i] assms(1) by (auto simp: wf_bind_def)
  have f: "?fs ! i = (if i = slot then (if bin then 1 else 0) else g)"
    using i(1) g by (simp add: rewritten_formats_def)
  have "zc_formats b slot bin i ?n arr = zc_formats b slot bin (Suc i) ?n (arr[i := ?fs ! i])"
    using i(1) g f Suc.prems by (subst zc_formats.simps) simp
  also have "\<dots> = Some (take (Suc i) (arr[i := ?fs ! i]) @ drop (Suc i) ?fs @ drop ?n (arr[i := ?fs ! i]))"
    by (rule Suc.hyps(1)) (use i Suc.prems in auto)
  also have "\<dots> = Some (take i arr @ (?fs ! i # drop (Suc i) ?fs) @ drop ?n arr)"
    using fill_from [of i "?fs ! i" "drop (Suc i) ?fs" arr] i Suc.prems by simp
  finally show ?case using i(1) by (simp add: Cons_nth_drop_Suc)
qed

lemma zc_put_array_exact:
  assumes "i \<le> n" "n \<le> length arr" "length acc \<le> cap"
  shows "zc_put_array cap arr i n acc =
     Some (if length acc + 2 * (n - i) \<le> cap then Some (acc @ concat (map wr16_be (drop i (take n arr)))) else None)"
  using assms
proof (induction "n - i" arbitrary: i acc)
  case 0
  then show ?case by (subst zc_put_array.simps) simp
next
  case (Suc k)
  then have i: "i < n" "k = n - Suc i" "n - i = Suc (n - Suc i)" by simp_all
  have d: "drop i (take n arr) = arr ! i # drop (Suc i) (take n arr)"
    using i(1) Suc.prems(2) by (subst Cons_nth_drop_Suc [symmetric]) auto
  show ?case
  proof (cases "length acc + 2 > cap")
    case True
    then show ?thesis using i Suc.prems by (subst zc_put_array.simps) simp
  next
    case False
    have "zc_put_array cap arr i n acc = zc_put_array cap arr (Suc i) n (acc @ wr16_be (arr ! i))"
      using False i(1) Suc.prems by (subst zc_put_array.simps) simp
    with Suc.hyps(1) [OF i(2), of "acc @ wr16_be (arr ! i)"] False i Suc.prems d show ?thesis by simp
  qed
qed

text \<open>The values of the rewritten message, in a context from which the event's values read.\<close>

lemma reads_value_at:
  assumes "reads_values c b vs" "i < length vs" "\<forall>v \<in> set vs. length (c_str v) < 2 ^ 31"
    "length (bi_params b) = PQWIRE_MAX_BIND_PARAMS" "length vs \<le> PQWIRE_MAX_BIND_PARAMS"
  shows "peek (bi_params b) i = Some (bi_params b ! i)" "pv_length (bi_params b ! i) = value_length (vs ! i)"
    "sint (pv_length (bi_params b ! i)) < 0 \<longleftrightarrow> vs ! i = None"
    "vs ! i = Some d \<Longrightarrow> unat (pv_length (bi_params b ! i)) = length d \<and>
       deref c (pv_data (bi_params b ! i)) (length d) = Some d \<and> pv_data (bi_params b ! i) \<noteq> NullPtr"
proof -
  have l: "length (c_str (vs ! i)) < 2 ^ 31" using assms(2,3) nth_mem by blast
  show "peek (bi_params b) i = Some (bi_params b ! i)" using assms(2,4,5) by simp
  have r: "case vs ! i of
        None \<Rightarrow> pv_length (bi_params b ! i) = - 1 \<and> pv_data (bi_params b ! i) = NullPtr
      | Some d \<Rightarrow> pv_length (bi_params b ! i) = of_nat (length d) \<and>
          (\<exists>at. pv_data (bi_params b ! i) = InBuf (input_epoch c) at \<and>
                mem_read (input_buf c) at (length d) = Some d)"
    using assms(1,2) by (simp add: reads_values_def)
  show v: "pv_length (bi_params b ! i) = value_length (vs ! i)" using r by (cases "vs ! i") auto
  show "sint (pv_length (bi_params b ! i)) < 0 \<longleftrightarrow> vs ! i = None"
    using value_length_sign [OF l] v by simp
  show "unat (pv_length (bi_params b ! i)) = length d \<and>
       deref c (pv_data (bi_params b ! i)) (length d) = Some d \<and> pv_data (bi_params b ! i) \<noteq> NullPtr"
    if "vs ! i = Some d"
    using that r l v value_length_Some [of d] by (auto simp: deref_def)
qed

lemma zc_value_exact:
  fixes slot :: nat and identity :: bytes
  assumes "reads_values c b vs" "i < length vs" "\<forall>v \<in> set vs. length (c_str v) < 2 ^ 31"
    "length (bi_params b) = PQWIRE_MAX_BIND_PARAMS" "length vs \<le> PQWIRE_MAX_BIND_PARAMS"
  defines "w \<equiv> (vs[slot := Some identity]) ! i"
  shows "zc_value c b slot identity cap i acc =
     Some (if length acc + length (wire_value w) \<le> cap then Some (acc @ wire_value w) else None)"
proof -
  note r = reads_value_at [OF assms(1-5)]
  have m: "wr32_be 0xFFFFFFFF = wr32_be (- 1)" by (rule arg_cong [where f = wr32_be]) simp
  show ?thesis
  proof (cases "i = slot")
    case True
    then have "w = Some identity" using assms(2) by (simp add: w_def)
    then show ?thesis using True by (simp add: zc_value_def zput_def wire_value_def)
  next
    case False
    then have w: "w = vs ! i" by (simp add: w_def)
    show ?thesis
    proof (cases "vs ! i")
      case None
      then show ?thesis using False r w m by (simp add: zc_value_def zput_def wire_value_def)
    next
      case (Some d)
      with r(4) [OF Some] False r(1-3) w show ?thesis
        by (simp add: zc_value_def zput_def wire_value_def)
    qed
  qed
qed

lemma zc_values_exact:
  fixes slot :: nat and identity :: bytes
  assumes "reads_values c b vs" "\<forall>v \<in> set vs. length (c_str v) < 2 ^ 31"
    "length (bi_params b) = PQWIRE_MAX_BIND_PARAMS" "length vs \<le> PQWIRE_MAX_BIND_PARAMS"
    and "i \<le> length vs" "length acc \<le> cap"
  defines "ws \<equiv> vs[slot := Some identity]"
  shows "zc_values c b slot identity cap i (length vs) acc =
     Some (if length acc + length (wire_values (drop i ws)) \<le> cap then Some (acc @ wire_values (drop i ws)) else None)"
  using assms(5,6)
proof (induction "length vs - i" arbitrary: i acc)
  case 0
  then show ?case by (subst zc_values.simps) (simp add: ws_def wire_values_def)
next
  case (Suc k)
  then have i: "i < length vs" "k = length vs - Suc i" "i < length ws" by (simp_all add: ws_def)
  note v = zc_value_exact [OF assms(1) i(1) assms(2-4), of slot identity cap acc, folded ws_def]
  note w = wire_values_drop [OF i(3)]
  show ?case
  proof (cases "length acc + length (wire_value (ws ! i)) \<le> cap")
    case True
    with v have "zc_values c b slot identity cap i (length vs) acc =
        zc_values c b slot identity cap (Suc i) (length vs) (acc @ wire_value (ws ! i))"
      using i(1) by (subst zc_values.simps) simp
    with Suc.hyps(1) [OF i(2), of "acc @ wire_value (ws ! i)"] True i(1) w show ?thesis by simp
  next
    case False
    with v have "zc_values c b slot identity cap i (length vs) acc = Some None"
      using i(1) by (subst zc_values.simps) simp
    with False w show ?thesis by simp
  qed
qed

lemma zput_exact: "zput cap acc bs k = (if length (acc @ bs) \<le> cap then k (acc @ bs) else Some None)"
  by (simp add: zput_def)

definition rewritten_body ::
  "pq_bind \<Rightarrow> bytes option list \<Rightarrow> bytes option \<Rightarrow> bytes option \<Rightarrow> nat \<Rightarrow> bytes \<Rightarrow> bool \<Rightarrow> bytes" where
  "rewritten_body b vs portal st slot identity bin =
     bind_body (c_str portal) (c_str st) (rewritten_formats b slot bin) (vs[slot := Some identity])
       (take (bi_n_result_formats b) (bi_result_formats b))"

lemma zerocopy_exact:
  fixes portal st :: "bytes option" and identity :: bytes and bin :: bool and slot :: u16
  assumes "wf_bind b" "reads_values c b vs" "\<forall>v \<in> set vs. length (c_str v) < 2 ^ 31"
    "unat slot < bi_n_params b"
  defines "body \<equiv> rewritten_body b vs portal st (unat slot) identity bin"
  shows "pqwire_bind_rewrite_identity_zerocopy c (Some b) portal st slot (Some identity) bin cap =
     Some (if length body + 5 \<le> cap then Some (wire_msg (ascii (CHR ''B'')) body) else None)"
proof -
  let ?n = "bi_n_params b" and ?nr = "bi_n_result_formats b" and ?z = "replicate 5 0 :: bytes"
  let ?fs = "rewritten_formats b (unat slot) bin" and ?ws = "vs[unat slot := Some identity]"
  have n: "length vs = ?n" using assms(2) by (simp add: reads_values_def)
  have w: "?n \<le> PQWIRE_MAX_BIND_PARAMS" "length (bi_params b) = PQWIRE_MAX_BIND_PARAMS"
    "?nr \<le> length (bi_result_formats b)"
    using assms(1) by (auto simp: wf_bind_def)
  have fm: "zc_formats b (unat slot) bin 0 ?n (replicate PQWIRE_MAX_BIND_PARAMS 0) =
      Some (?fs @ drop ?n (replicate PQWIRE_MAX_BIND_PARAMS 0))"
    using zc_formats_exact [OF assms(1), of 0] w(1) by simp
  have b: "body = (c_str portal @ [0]) @ (c_str st @ [0]) @ wr16_be (of_nat ?n) @ concat (map wr16_be ?fs) @
      wr16_be (of_nat ?n) @ wire_values ?ws @ wr16_be (of_nat ?nr) @ concat (map wr16_be (take ?nr (bi_result_formats b)))"
    using n w(3)
    by (simp add: body_def rewritten_body_def bind_body_def wire_counted_def wire_str_def wire_values_def)
  have A: "zc_put_array cap (?fs @ r) 0 ?n acc =
      Some (if length (acc @ concat (map wr16_be ?fs)) \<le> cap then Some (acc @ concat (map wr16_be ?fs)) else None)"
    if "length acc \<le> cap" for acc r
    using zc_put_array_exact [of 0 ?n "?fs @ r" acc cap] that by (simp add: be16.length_encs)
  have V: "zc_values c b (unat slot) identity cap 0 ?n acc =
      Some (if length (acc @ wire_values ?ws) \<le> cap then Some (acc @ wire_values ?ws) else None)"
    if "length acc \<le> cap" for acc
    using zc_values_exact [OF assms(2,3) w(2), of 0 acc cap "unat slot" identity] that w(1) n by simp
  have R: "zc_put_array cap (bi_result_formats b) 0 ?nr acc =
      Some (if length (acc @ concat (map wr16_be (take ?nr (bi_result_formats b)))) \<le> cap
            then Some (acc @ concat (map wr16_be (take ?nr (bi_result_formats b)))) else None)"
    if "length acc \<le> cap" for acc
    using zc_put_array_exact [of 0 ?nr "bi_result_formats b" acc cap] that w(3)
    by (simp add: be16.length_encs min_def)
  have P: "poke (?z @ body) 0 (ascii (CHR ''B'') # wr32_be (of_nat (length (?z @ body) - 1))) =
      Some (wire_msg (ascii (CHR ''B'')) body)"
    by (simp add: wire_msg_def add.commute)
  show ?thesis
    using assms(4) fm P
    by (simp add: pqwire_bind_rewrite_identity_zerocopy_def zput_exact A V R Let_def b del: length_append
        append_assoc)
       (auto simp: b)
qed

section \<open>What injection leaves in the slots\<close>

text \<open>
  The value that \<open>pqwire_bind_inject_identity\<close> leaves for parameter \<open>i\<close>: the identity, or the
  event's value, cut at its first zero byte unless the format is binary.
\<close>

definition injected_value :: "pq_bind \<Rightarrow> bytes option list \<Rightarrow> nat \<Rightarrow> bytes \<Rightarrow> nat \<Rightarrow> bytes option" where
  "injected_value b vs slot identity i =
     (if i = slot then Some identity
      else if pv_format (bi_params b ! i) = 1 then vs ! i
      else map_option (\<lambda>d. cstr_of (d @ [0])) (vs ! i))"

definition injected_format :: "pq_bind \<Rightarrow> bytes option list \<Rightarrow> nat \<Rightarrow> bool \<Rightarrow> nat \<Rightarrow> u16" where
  "injected_format b vs slot as_binary i =
     (if i = slot then (if as_binary then 1 else 0)
      else if vs ! i = None \<or> pv_format (bi_params b ! i) = 1 then pv_format (bi_params b ! i)
      else 0)"

text \<open>A slot holds a value and a format.\<close>

definition slot_holds :: "pqwire_param \<Rightarrow> bytes option \<Rightarrow> u16 \<Rightarrow> bool" where
  "slot_holds q v f \<longleftrightarrow> p_format q = f \<and> p_length q = value_length v \<and> (c_str v \<noteq> [] \<longrightarrow> p_data q = v)"

lemma set_text_holds:
  assumes "can_grow E"
  shows "\<exists>q. pqwire_param_set_text E p (Some t) = (0, q) \<and> slot_holds q (Some t) 0"
  using assms by (simp add: pqwire_param_set_text_def Let_def can_grow_def slot_holds_def)

lemma set_binary_holds:
  assumes "can_grow E"
  shows "\<exists>q. pqwire_param_set_binary E p (Some t) (length t) = Some (0, q) \<and> slot_holds q (Some t) 1"
  using assms by (simp add: pqwire_param_set_binary_def Let_def can_grow_def slot_holds_def c_str_def)

lemma set_null_holds: "slot_holds ((pqwire_param_set_null p)\<lparr>p_format := f\<rparr>) None f"
  by (simp add: pqwire_param_set_null_def slot_holds_def c_str_def)

lemma inject_one_holds:
  assumes "can_grow E" "reads_values c b vs" "i < length vs" "\<forall>v \<in> set vs. length (c_str v) < 2 ^ 31"
    "length (bi_params b) = PQWIRE_MAX_BIND_PARAMS" "length vs \<le> PQWIRE_MAX_BIND_PARAMS"
  shows "\<exists>q. inject_one E c b slot identity bin i p = Some (0, q) \<and>
     slot_holds q (injected_value b vs slot identity i) (injected_format b vs slot bin i)"
proof (cases "i = slot")
  case True
  with set_text_holds [OF assms(1)] set_binary_holds [OF assms(1)] reads_value_at(1) [OF assms(2-6)] show ?thesis
    by (simp add: inject_one_def injected_value_def injected_format_def Let_def)
next
  case slot: False
  note r = reads_value_at [OF assms(2-6)]
  show ?thesis
  proof (cases "vs ! i")
    case None
    with slot r(1,3) set_null_holds show ?thesis
      by (simp add: inject_one_def injected_value_def injected_format_def Let_def)
  next
    case (Some d)
    note v = r(4) [OF Some]
    show ?thesis
    proof (cases "pv_format (bi_params b ! i) = 1")
      case True
      with slot Some r(1,3) v set_binary_holds [OF assms(1)] show ?thesis
        by (simp add: inject_one_def injected_value_def injected_format_def Let_def)
    next
      case False
      with slot Some r(1,3) v set_text_holds [OF assms(1)] assms(1) show ?thesis
        by (simp add: inject_one_def injected_value_def injected_format_def Let_def can_grow_def)
    qed
  qed
qed

lemma inject_loop_holds:
  assumes "can_grow E" "reads_values c b vs" "\<forall>v \<in> set vs. length (c_str v) < 2 ^ 31"
    "length (bi_params b) = PQWIRE_MAX_BIND_PARAMS" "length vs \<le> PQWIRE_MAX_BIND_PARAMS"
    and "i \<le> length vs" "length vs \<le> length ps"
  shows "\<exists>qs. inject_loop E c b slot identity bin i (length vs) ps = Some (0, qs) \<and> length qs = length ps \<and>
     (\<forall>j < length ps. if i \<le> j \<and> j < length vs
        then slot_holds (qs ! j) (injected_value b vs slot identity j) (injected_format b vs slot bin j)
        else qs ! j = ps ! j)"
  using assms(6,7)
proof (induction "length vs - i" arbitrary: i ps)
  case 0
  then show ?case by (subst inject_loop.simps) auto
next
  case (Suc k)
  then have i: "i < length vs" "k = length vs - Suc i" "i < length ps" by simp_all
  obtain q where q: "inject_one E c b slot identity bin i (ps ! i) = Some (0, q)"
    "slot_holds q (injected_value b vs slot identity i) (injected_format b vs slot bin i)"
    using inject_one_holds [OF assms(1,2) i(1) assms(3-5)] by blast
  from Suc.hyps(1) [OF i(2), of "ps[i := q]"] i Suc.prems(2) obtain qs where qs:
    "inject_loop E c b slot identity bin (Suc i) (length vs) (ps[i := q]) = Some (0, qs)" "length qs = length ps"
    "\<forall>j < length ps. if Suc i \<le> j \<and> j < length vs
        then slot_holds (qs ! j) (injected_value b vs slot identity j) (injected_format b vs slot bin j)
        else qs ! j = ps[i := q] ! j"
    by auto
  have "inject_loop E c b slot identity bin i (length vs) ps = Some (0, qs)"
    using i q(1) qs(1) by (subst inject_loop.simps) simp
  moreover have "if i \<le> j \<and> j < length vs
        then slot_holds (qs ! j) (injected_value b vs slot identity j) (injected_format b vs slot bin j)
        else qs ! j = ps ! j" if "j < length ps" for j
    using qs(3) [rule_format, OF that] q(2) i(1,3) by (cases "j = i") (auto split: if_splits)
  ultimately show ?case using qs(2) by blast
qed

lemma c_str_nth_update:
  assumes "\<forall>v \<in> set vs. length (c_str v) < 2 ^ 31" "length identity < 2 ^ 31"
  shows "\<forall>v \<in> set (vs[slot := Some identity]). length (c_str v) < 2 ^ 31"
  using assms set_update_subset_insert [of vs slot "Some identity"] by (auto simp: c_str_def)

lemma wf_bind_lengths:
  assumes "wf_bind b" "reads_values c b vs"
  shows "length vs = bi_n_params b" "bi_n_params b \<le> PQWIRE_MAX_BIND_PARAMS"
    "length (bi_params b) = PQWIRE_MAX_BIND_PARAMS" "length vs \<le> PQWIRE_MAX_BIND_PARAMS"
    "bi_n_result_formats b \<le> PQWIRE_MAX_BIND_PARAMS" "length (bi_result_formats b) = PQWIRE_MAX_BIND_PARAMS"
    "length (take (bi_n_result_formats b) (bi_result_formats b)) = bi_n_result_formats b"
  using assms by (auto simp: wf_bind_def reads_values_def)


text \<open>A Bind event of two parameters in a context that still holds their bytes.\<close>

definition sample_ctx :: pqwire_ctx where
  "sample_ctx = (fresh_ctx PQWIRE_ROLE_SERVER)\<lparr>input_buf := [65, 66, 0, 67]\<rparr>"

definition sample_bind :: pq_bind where
  "sample_bind = zero_bind\<lparr>bi_n_params := 2, bi_n_result_formats := 1,
     bi_params := [\<lparr>pv_length = 2, pv_data = InBuf (input_epoch sample_ctx) 0, pv_format = 0\<rparr>,
                   \<lparr>pv_length = - 1, pv_data = NullPtr, pv_format = 0\<rparr>] @ replicate 30 zero_param_view\<rparr>"

lemma sample_reads: "wf_bind sample_bind" "reads_values sample_ctx sample_bind [Some [65, 66], None]"
  by (simp_all add: sample_bind_def sample_ctx_def wf_bind_def zero_bind_def limit_defs fits_def is_cstr_def
      reads_values_def mem_read_def All_less_Suc)

lemma sample_simps [simp]: "bi_n_params sample_bind = 2" "bi_n_result_formats sample_bind = 1"
  by (simp_all add: sample_bind_def)


text \<open>
  C8. End to end: a Bind that passes through \<open>pqwire_send_bind_rewrite_identity\<close> reaches the
  server with the identity in the chosen slot and every other value, NULLs included, as the
  client sent it.
\<close>

theorem rewrite_identity_delivered:
  assumes "sender E c" "wf_bind b" "reads_values src b vs" "\<forall>v \<in> set vs. length (c_str v) < 2 ^ 31"
    "unat slot < bi_n_params b" "length identity < 2 ^ 31" "is_cstr (c_str portal)" "is_cstr (c_str st)"
    "length (rewritten_body b vs portal st (unat slot) identity bin) + 5 \<le> 8192"
    "accepts s PQWIRE_ROLE_SERVER (length (rewritten_body b vs portal st (unat slot) identity bin))"
  shows "delivers E (pqwire_send_bind_rewrite_identity E c src (Some b) portal st slot (Some identity) bin) s
     (\<lambda>s'. \<exists>bp ev. ev = bind_event bp (c_str portal) (c_str st) (rewritten_formats b (unat slot) bin)
            (vs[unat slot := Some identity]) (take (bi_n_result_formats b) (bi_result_formats b)) \<and>
          received s s' (mk_event PQ_EVENT_BIND (PBind ev)) \<and>
          reads_values s' ev (vs[unat slot := Some identity]))"
proof -
  note w = wf_bind_lengths [OF assms(2,3)]
  let ?body = "rewritten_body b vs portal st (unat slot) identity bin"
  let ?m = "wire_msg (ascii (CHR ''B'')) ?body"
  have "wf_output c" "ctx_ok c" "can_grow E" using assms(1) by (auto simp: sender_def)
  then have "sends E c (pqwire_send_bind_rewrite_identity E c src (Some b) portal st slot (Some identity) bin) ?m"
    using zerocopy_exact [OF assms(2-5), of portal st identity bin 8192] assms(9) append_output_sends [of c E ?m]
    by (simp add: pqwire_send_bind_rewrite_identity_def)
  from bind_msg_delivered [OF this [unfolded rewritten_body_def] assms(1) assms(10) [unfolded rewritten_body_def]
      assms(7,8)] w c_str_nth_update [OF assms(4,6)]
  show ?thesis by simp
qed

theorem rewrite_identity_delivered_witness:
  "delivers roomy_env (pqwire_send_bind_rewrite_identity roomy_env (fresh_ctx PQWIRE_ROLE_CLIENT) sample_ctx
       (Some sample_bind) None None 1 (Some [105]) False) started_server
     (\<lambda>s'. \<exists>bp ev. ev = bind_event bp (c_str None) (c_str None)
            (rewritten_formats sample_bind (unat (1 :: u16)) False) ([Some [65, 66], None][unat (1 :: u16) := Some [105]])
            (take (bi_n_result_formats sample_bind) (bi_result_formats sample_bind)) \<and>
          received started_server s' (mk_event PQ_EVENT_BIND (PBind ev)) \<and>
          reads_values s' ev ([Some [65, 66], None][unat (1 :: u16) := Some [105]]))"
  by (rule rewrite_identity_delivered [OF _ sample_reads])
    (auto simp: c_str_def is_cstr_def rewritten_body_def bind_body_def wire_simps limit_defs be16.length_encs)

lemma inject_identity_holds:
  assumes "can_grow E" "wf_bind b" "reads_values c b vs" "\<forall>v \<in> set vs. length (c_str v) < 2 ^ 31"
    "unat slot < bi_n_params b" "bi_n_params b \<le> length ps"
  shows "\<exists>qs. pqwire_bind_inject_identity E c (Some b) ps slot (Some identity) bin = Some (0, qs) \<and>
     length qs = length ps \<and>
     (\<forall>j < length ps. if j < bi_n_params b
        then slot_holds (qs ! j) (injected_value b vs (unat slot) identity j) (injected_format b vs (unat slot) bin j)
        else qs ! j = ps ! j)"
proof -
  note w = wf_bind_lengths [OF assms(2,3)]
  from inject_loop_holds [OF assms(1,3,4) w(3,4), of 0 ps "unat slot" identity bin] assms(5,6) w(1)
  show ?thesis by (simp add: pqwire_bind_inject_identity_def)
qed

text \<open>
  C27. Injection into owned slots: with memory available, slot \<open>slot\<close> holds the identity,
  every other slot of the event the event's value (NULL stays NULL, binary values are kept
  whole, text values up to their first zero byte), and slots behind the event's parameters
  are not touched.
\<close>

theorem inject_identity_exact:
  assumes "can_grow E" "wf_bind b" "reads_values c b vs" "\<forall>v \<in> set vs. length (c_str v) < 2 ^ 31"
    "unat slot < bi_n_params b" "bi_n_params b \<le> length ps"
  shows "\<exists>qs. pqwire_bind_inject_identity E c (Some b) ps slot (Some identity) bin = Some (0, qs) \<and>
     length qs = length ps \<and>
     (\<forall>j < length ps. if j < bi_n_params b
        then slot_holds (qs ! j) (injected_value b vs (unat slot) identity j) (injected_format b vs (unat slot) bin j)
        else qs ! j = ps ! j)"
  by (rule inject_identity_holds [OF assms])

text \<open>The witness: a text parameter with a zero byte inside is cut there.\<close>

definition nul_bind :: pq_bind where
  "nul_bind = sample_bind\<lparr>bi_params := (bi_params sample_bind)[0 :=
     \<lparr>pv_length = 4, pv_data = InBuf (input_epoch sample_ctx) 0, pv_format = 0\<rparr>]\<rparr>"

definition empty_slot :: pqwire_param where
  "empty_slot = \<lparr>p_length = 0, p_data = None, p_owned = False, p_format = 0\<rparr>"

lemma nul_reads: "wf_bind nul_bind" "reads_values sample_ctx nul_bind [Some [65, 66, 0, 67], None]"
  by (simp_all add: nul_bind_def sample_bind_def sample_ctx_def wf_bind_def zero_bind_def limit_defs fits_def
      is_cstr_def reads_values_def mem_read_def All_less_Suc)

lemma nul_simps [simp]: "bi_n_params nul_bind = 2" "pv_format (bi_params nul_bind ! 0) = 0"
  by (simp_all add: nul_bind_def sample_bind_def)

theorem inject_identity_exact_witness:
  "\<exists>qs. pqwire_bind_inject_identity roomy_env sample_ctx (Some nul_bind) (replicate 2 empty_slot) 1 (Some [105]) True = Some (0, qs) \<and>
     length qs = 2 \<and> p_data (qs ! 0) = Some [65, 66] \<and> p_length (qs ! 0) = 2 \<and>
     p_data (qs ! 1) = Some [105] \<and> p_format (qs ! 1) = 1"
proof -
  from inject_identity_exact [OF _ nul_reads, of roomy_env 1 "replicate 2 empty_slot" "[105]" True]
  obtain qs where "pqwire_bind_inject_identity roomy_env sample_ctx (Some nul_bind) (replicate 2 empty_slot) 1 (Some [105]) True =
      Some (0, qs)" "length qs = 2"
    "\<forall>j < 2. slot_holds (qs ! j) (injected_value nul_bind [Some [65, 66, 0, 67], None] 1 [105] j)
       (injected_format nul_bind [Some [65, 66, 0, 67], None] 1 True j)"
    by (auto simp: c_str_def)
  then show ?thesis
    by (simp add: less_2_cases_iff imp_disjL all_conj_distrib slot_holds_def injected_value_def injected_format_def cstr_of_def c_str_def)
qed

text \<open>
  Both rewrites of one event: the formats the parser stored with the views are those of the
  format array, each text or binary, and no text value has a zero byte.
\<close>

definition plain_bind :: "pq_bind \<Rightarrow> bytes option list \<Rightarrow> bool" where
  "plain_bind b vs \<longleftrightarrow>
     (\<forall>i < bi_n_params b. param_format (bi_n_formats b) (bi_formats b) i = Some (pv_format (bi_params b ! i)) \<and>
        pv_format (bi_params b ! i) \<in> {0, 1} \<and>
        (pv_format (bi_params b ! i) = 0 \<longrightarrow> is_cstr (c_str (vs ! i))))"

lemma plain_injected:
  assumes "plain_bind b vs" "i < bi_n_params b" "length vs = bi_n_params b"
  shows "injected_value b vs slot identity i = vs[slot := Some identity] ! i"
    "injected_format b vs slot bin i = rewritten_formats b slot bin ! i"
proof -
  have p: "param_format (bi_n_formats b) (bi_formats b) i = Some (pv_format (bi_params b ! i))"
    "pv_format (bi_params b ! i) \<in> {0, 1}" "pv_format (bi_params b ! i) = 0 \<Longrightarrow> is_cstr (c_str (vs ! i))"
    using assms(1,2) by (auto simp: plain_bind_def)
  show "injected_value b vs slot identity i = vs[slot := Some identity] ! i"
    using p(2,3) assms(2,3)
    by (cases "vs ! i") (auto simp: injected_value_def nth_list_update c_str_def cstr_of_cstr)
  show "injected_format b vs slot bin i = rewritten_formats b slot bin ! i"
    using p assms(2,3) by (auto simp: injected_format_def rewritten_formats_def)
qed

lemma plain_slots_args:
  assumes "plain_bind b vs" "length vs = bi_n_params b" "length qs = bi_n_params b"
    "\<forall>v \<in> set vs. length (c_str v) < 2 ^ 31" "length identity < 2 ^ 31"
    "\<forall>j < length qs. slot_holds (qs ! j) (injected_value b vs slot identity j) (injected_format b vs slot bin j)"
  shows "map p_format qs = rewritten_formats b slot bin"
    "value_args (length qs) (Some (map p_length qs)) (Some (map p_data qs)) (vs[slot := Some identity])"
proof -
  note h = assms(6) [rule_format, unfolded slot_holds_def]
  note p = plain_injected [OF assms(1) _ assms(2)]
  show "map p_format qs = rewritten_formats b slot bin"
    by (rule nth_equalityI) (use h p assms(3) in auto)
  have l: "length (c_str (vs[slot := Some identity] ! i)) < 2 ^ 31" if "i < length qs" for i
    using bspec [OF c_str_nth_update [OF assms(4,5), of slot] nth_mem] that assms(2,3) by simp
  have a: "arg_at (- 1) (Some (map p_length qs)) i = Some (value_length (vs[slot := Some identity] ! i))"
    if "i < length qs" for i
    using h [OF that] p(1) that assms(3) by (simp add: arg_at_def)
  have d: "\<exists>d. arg_at None (Some (map p_data qs)) i = Some (Some d) \<and>
      take (length (c_str (vs[slot := Some identity] ! i))) d = c_str (vs[slot := Some identity] ! i)"
    if "i < length qs" "c_str (vs[slot := Some identity] ! i) \<noteq> []" for i
    using h [OF that(1)] p(1) that assms(3)
    by (cases "vs[slot := Some identity] ! i") (auto simp: c_str_def arg_at_def)
  show "value_args (length qs) (Some (map p_length qs)) (Some (map p_data qs)) (vs[slot := Some identity])"
    unfolding value_args_def length_list_update assms(2,3) using l a d unfolding assms(3) by blast
qed

text \<open>
  C10. The two rewrites agree: for an event whose parameters are text without zero bytes,
  binary or NULL, injecting the identity into owned slots and sending those with
  \<open>pqwire_send_bind_params\<close> puts on the wire exactly the message that the zero-copy rewrite
  builds, when the serialiser's first allocation and the caller's buffer hold it.
\<close>

theorem rewrite_paths_agree:
  assumes "wf_output c" "ctx_ok c" "can_grow E" "wf_bind b" "reads_values src b vs" "plain_bind b vs"
    "\<forall>v \<in> set vs. length (c_str v) < 2 ^ 31" "unat slot < bi_n_params b" "length identity < 2 ^ 31"
    "length ps = bi_n_params b"
    "length (rewritten_body b vs portal st (unat slot) identity bin) \<le> 64 + 256 * bi_n_params b"
    "length (rewritten_body b vs portal st (unat slot) identity bin) + 5 \<le> cap"
  shows "\<exists>qs m. pqwire_bind_inject_identity E src (Some b) ps slot (Some identity) bin = Some (0, qs) \<and>
     pqwire_bind_rewrite_identity_zerocopy src (Some b) portal st slot (Some identity) bin cap = Some (Some m) \<and>
     sends E c (pqwire_send_bind_params E c portal st (Some qs) (of_nat (bi_n_params b))
       (Some (bi_result_formats b)) (of_nat (bi_n_result_formats b))) m"
proof -
  note w = wf_bind_lengths [OF assms(4,5)]
  let ?m = "wire_msg (ascii (CHR ''B'')) (rewritten_body b vs portal st (unat slot) identity bin)"
  obtain qs where qs: "pqwire_bind_inject_identity E src (Some b) ps slot (Some identity) bin = Some (0, qs)"
    "length qs = bi_n_params b"
    "\<forall>j < length qs. slot_holds (qs ! j) (injected_value b vs (unat slot) identity j) (injected_format b vs (unat slot) bin j)"
    using inject_identity_holds [OF assms(3-5,7,8), of ps identity bin] assms(10) by auto
  note a = plain_slots_args [OF assms(6) w(1) qs(2) assms(7,9) qs(3)]
  have n: "unat (of_nat (bi_n_params b) :: u16) = bi_n_params b"
    "unat (of_nat (bi_n_result_formats b) :: u16) = bi_n_result_formats b" "bi_n_params b > 0"
    using w(2,5) assms(8) by (simp_all add: unat_of_nat_small limit_defs)
  then have z: "(of_nat (bi_n_params b) :: u16) \<noteq> 0" by (metis unat_0 less_irrefl)
  have "sends E c (pqwire_send_bind E c portal st (Some (map p_format qs)) (of_nat (bi_n_params b))
      (Some (map p_length qs)) (Some (map p_data qs)) (of_nat (bi_n_params b)) (Some (bi_result_formats b))
      (of_nat (bi_n_result_formats b))) ?m"
    using send_bind_sends [OF assms(1-3), of "of_nat (bi_n_params b)" "Some (map p_format qs)" "of_nat (bi_n_params b)"
        "Some (map p_length qs)" "Some (map p_data qs)" "vs[unat slot := Some identity]"
        "of_nat (bi_n_result_formats b)" "Some (bi_result_formats b)" portal st] a qs(2) w(5,6) n assms(11)
    by (simp add: rewritten_body_def arg_list_def)
  then have "sends E c (pqwire_send_bind_params E c portal st (Some qs) (of_nat (bi_n_params b))
      (Some (bi_result_formats b)) (of_nat (bi_n_result_formats b))) ?m"
    using qs(2) n z w(2) by (simp add: pqwire_send_bind_params_def word_gt_0 mem_read_def)
  with qs(1) zerocopy_exact [OF assms(4,5,7,8), of portal st identity bin cap] assms(12) show ?thesis by simp
qed

theorem rewrite_paths_agree_witness:
  "\<exists>qs m. pqwire_bind_inject_identity roomy_env sample_ctx (Some sample_bind) (replicate 2 empty_slot) 1 (Some [105]) True =
       Some (0, qs) \<and>
     pqwire_bind_rewrite_identity_zerocopy sample_ctx (Some sample_bind) None None 1 (Some [105]) True 100 = Some (Some m) \<and>
     sends roomy_env (fresh_ctx PQWIRE_ROLE_CLIENT) (pqwire_send_bind_params roomy_env (fresh_ctx PQWIRE_ROLE_CLIENT)
       None None (Some qs) (of_nat (bi_n_params sample_bind)) (Some (bi_result_formats sample_bind))
       (of_nat (bi_n_result_formats sample_bind))) m"
proof (rule rewrite_paths_agree [OF _ _ _ sample_reads])
  show "plain_bind sample_bind [Some [65, 66], None]"
    by (simp add: plain_bind_def sample_bind_def zero_bind_def param_format_def less_2_cases_iff imp_disjL
        all_conj_distrib c_str_def is_cstr_def)
qed (auto simp: c_str_def ctx_ok_def rewritten_body_def bind_body_def wire_simps be16.length_encs)

section \<open>Prepared statements\<close>

text \<open>
  A prepared statement made from a Parse event records its name, its query and its
  parameter types without loss; the rest of the type array is zero and no identity slot is
  chosen.
\<close>

theorem prepared_from_parse_exact:
  assumes "wf_parse p"
  shows "pqwire_prepared_from_parse (Some p) = Some (0, Some
     \<lparr>ps_name = pa_statement p, ps_query = pa_query p, ps_n_param_types = pa_n_param_types p,
      ps_param_type_oids = take (pa_n_param_types p) (pa_param_type_oids p) @
        replicate (PQWIRE_MAX_PARAM_TYPES - pa_n_param_types p) 0,
      ps_identity_param_slot = - 1\<rparr>)"
  using assms
  by (simp add: pqwire_prepared_from_parse_def wf_parse_def fits_def copy_cstr_short min_absorb1 Let_def
      mem_read_def poke_def)

theorem prepared_from_parse_exact_witness:
  "pqwire_prepared_from_parse (Some (zero_parse\<lparr>pa_query := text_of ''SELECT 1'', pa_n_param_types := 1,
       pa_param_type_oids := 23 # replicate 15 0\<rparr>)) = Some (0, Some
     \<lparr>ps_name = [], ps_query = text_of ''SELECT 1'', ps_n_param_types = 1,
      ps_param_type_oids = 23 # replicate 15 0, ps_identity_param_slot = - 1\<rparr>)"
  by (subst prepared_from_parse_exact)
    (simp_all add: wf_parse_def zero_parse_def fits_def is_cstr_def limit_defs)

end
