(* ===== verification/Pipeline.thy ===== *)
theory Pipeline
  imports Roundtrip
begin

text \<open>
  Mid-pipeline recovery (\<open>src/src/pqwire.c\<close>, lines 1431-1566): peeking at a message, the
  status a proxy keeps while it drains a backend pipeline, feeding one backend message to a
  client-role context, and the filter of backend message types.
\<close>

section \<open>Operations\<close>

text \<open>\<open>pqwire_msg_peek\<close>: \<open>None\<close> is a fault, \<open>Some None\<close> is -1; type and total otherwise.\<close>

definition pqwire_msg_peek :: "bytes option \<Rightarrow> (byte \<times> nat) option option" where
  "pqwire_msg_peek buf =
     (case buf of
        None \<Rightarrow> Some None
      | Some buf \<Rightarrow>
          if length buf < 5 then Some None
          else do {
            mlen \<leftarrow> rd32_be buf 1;
            if unat mlen < 4 then Some None
            else do {
              let tot = 1 + unat mlen;
              if tot > length buf then Some None
              else do {
                t \<leftarrow> peek buf 0;
                Some (Some (t, tot))
              }
            }
          })"

record pqwire_pipeline_status =
  saw_error :: bool
  saw_rfq :: bool
  complete :: bool
  n_msgs :: u32
  last_error :: pq_error

definition pqwire_pipeline_status_init :: pqwire_pipeline_status where
  "pqwire_pipeline_status_init =
     \<lparr>saw_error = False, saw_rfq = False, complete = False, n_msgs = 0, last_error = zero_error\<rparr>"

text \<open>\<open>parse_error_fields\<close>: the loop is that of \<open>parse_error_response\<close>.\<close>

definition parse_error_fields :: "bytes \<Rightarrow> pq_error option" where
  "parse_error_fields body = error_loop body 0 zero_error"

text \<open>
  The counter \<open>int n_msgs\<close> is kept modulo \<open>2 ^ 32\<close>; it would overflow after \<open>2 ^ 31\<close> messages.
\<close>

definition pqwire_pipeline_observe_msg ::
  "pqwire_pipeline_status \<Rightarrow> bytes option \<Rightarrow> (int \<times> pqwire_pipeline_status) option" where
  "pqwire_pipeline_observe_msg st msg =
     (case msg of
        None \<Rightarrow> Some (- 1, st)
      | Some m \<Rightarrow> do {
          r \<leftarrow> pqwire_msg_peek msg;
          case r of
            None \<Rightarrow> Some (- 1, st)
          | Some (type, tot) \<Rightarrow>
              if tot \<noteq> length m then Some (- 1, st)
              else do {
                let st = st\<lparr>n_msgs := n_msgs st + 1\<rparr>;
                if type = ascii (CHR ''E'') \<and> tot \<ge> 5
                then do {
                  body \<leftarrow> mem_read m 5 (tot - 5);
                  e \<leftarrow> parse_error_fields body;
                  Some (0, st\<lparr>saw_error := True, last_error := e\<rparr>)
                }
                else if type = ascii (CHR ''Z'')
                then Some (1, st\<lparr>saw_rfq := True, complete := True\<rparr>)
                else Some (0, st)
              }
        })"

text \<open>\<open>while (pqwire_next_event(client_role, &ev) == 1)\<close>.\<close>

function drain_events :: "pqwire_ctx \<Rightarrow> pqwire_ctx option" where
  "drain_events c =
     (case pqwire_next_event c of
        None \<Rightarrow> None
      | Some (None, c') \<Rightarrow> Some c'
      | Some (Some ev, c') \<Rightarrow> drain_events c')"
  by pat_completeness auto
termination
  by (relation "measure event_count")
    (auto simp: pqwire_next_event_def dequeue_event_def Let_def bind_eq_Some_conv split: if_splits)

declare drain_events.simps [simp del]

text \<open>
  The result is the return value, the context and the status; the outer \<open>None\<close> is a feed
  that does not return, the inner one a fault.
\<close>

definition pqwire_pipeline_feed_backend_msg ::
  "env \<Rightarrow> pqwire_ctx \<Rightarrow> pqwire_pipeline_status \<Rightarrow> bytes option \<Rightarrow>
   (int \<times> pqwire_ctx \<times> pqwire_pipeline_status) option option" where
  "pqwire_pipeline_feed_backend_msg E c st msg =
     (if \<not> ctx_ok c \<or> msg = None \<or> msg = Some [] then Some (Some (- 1, c, st))
      else case pqwire_pipeline_observe_msg st msg of
        None \<Rightarrow> Some None
      | Some (rfq, st) \<Rightarrow>
          if rfq < 0 then Some (Some (- 1, c, st))
          else case pqwire_feed_input E c msg of
            None \<Rightarrow> None
          | Some None \<Rightarrow> Some None
          | Some (Some (n, c)) \<Rightarrow>
              (case drain_events c of
                 None \<Rightarrow> Some None
               | Some c \<Rightarrow>
                   Some (Some (0, if rfq = 1 then pqwire_note_ready c else c, st))))"

definition pqwire_pipeline_filter_backend_type :: "byte \<Rightarrow> bool \<Rightarrow> int" where
  "pqwire_pipeline_filter_backend_type type skip_parse_bind_complete =
     (if skip_parse_bind_complete \<and> (type = ascii (CHR ''1'') \<or> type = ascii (CHR ''2'')) then 1
      else if type = ascii (CHR ''S'') \<or> type = ascii (CHR ''N'') \<or> type = ascii (CHR ''K'') then 1
      else 0)"

section \<open>Peeking and observing\<close>

lemma wire_msg_header:
  assumes "length body + 4 < 2 ^ 32"
  shows "rd32_be (wire_msg t body @ rest) 1 = Some (of_nat (length body + 4))"
    "unat (of_nat (length body + 4) :: u32) = length body + 4"
proof -
  have "field_at (wire_msg t body @ rest) 0 ([t] @ wr32_be (of_nat (length body + 4)) @ body @ rest)"
    by (simp add: wire_msg_def)
  from be32.dec_field_at(1) [OF field_at_split [OF this]]
  show "rd32_be (wire_msg t body @ rest) 1 = Some (of_nat (length body + 4))" by simp
  show "unat (of_nat (length body + 4) :: u32) = length body + 4" using assms by (intro unat_of_nat_small) simp
qed

lemma length_wire_msg [simp]: "length (wire_msg t body) = length body + 5"
  by (simp add: wire_msg_def)

lemma peek_wire_msg [simp]: "peek (wire_msg t body @ rest) 0 = Some t"
  by (simp add: wire_msg_def peek_def)

lemma msg_peek_wire:
  assumes "length body + 4 < 2 ^ 32"
  shows "pqwire_msg_peek (Some (wire_msg t body @ rest)) = Some (Some (t, length body + 5))"
  using wire_msg_header(1) [OF assms, of t rest] wire_msg_header(2) [OF assms]
  by (simp add: pqwire_msg_peek_def Let_def)

text \<open>What a complete backend message does to the status.\<close>

definition observed :: "pqwire_pipeline_status \<Rightarrow> byte \<times> bytes \<Rightarrow> pqwire_pipeline_status" where
  "observed st m =
     (let st = st\<lparr>n_msgs := n_msgs st + 1\<rparr> in
      if fst m = ascii (CHR ''E'')
      then st\<lparr>saw_error := True, last_error := the (error_loop (snd m) 0 zero_error)\<rparr>
      else if fst m = ascii (CHR ''Z'') then st\<lparr>saw_rfq := True, complete := True\<rparr>
      else st)"

lemma observe_wire:
  assumes "length body + 4 < 2 ^ 32"
  shows "pqwire_pipeline_observe_msg st (Some (wire_msg t body)) =
     Some (if t = ascii (CHR ''Z'') then 1 else 0, observed st (t, body))"
proof -
  have p: "pqwire_msg_peek (Some (wire_msg t body)) = Some (Some (t, length body + 5))"
    using msg_peek_wire [OF assms, of t "[]"] by simp
  have b: "mem_read (wire_msg t body) 5 (length body) = Some body"
    using drop_wire_msg [of 0 t body] by (simp add: mem_read_def)
  obtain e where "error_loop body 0 zero_error = Some e"
    using error_loop_safe [of zero_error 0 body] by auto
  then show ?thesis
    using p b by (auto simp: pqwire_pipeline_observe_msg_def Let_def parse_error_fields_def observed_def)
qed

text \<open>A whole pipeline of messages observed one by one.\<close>

fun observe_all :: "pqwire_pipeline_status \<Rightarrow> bytes list \<Rightarrow> pqwire_pipeline_status option" where
  "observe_all st [] = Some st"
| "observe_all st (m # ms) =
     Option.bind (pqwire_pipeline_observe_msg st (Some m)) (\<lambda>(rc, st). observe_all st ms)"

lemma observe_all_wire:
  "\<forall>m \<in> set ms. length (snd m) + 4 < 2 ^ 32 \<Longrightarrow>
   observe_all st (map (\<lambda>(t, b). wire_msg t b) ms) = Some (foldl observed st ms)"
  by (induction ms arbitrary: st) (auto simp: observe_wire)

lemma foldl_observed:
  "foldl observed st ms =
     \<lparr>saw_error = (saw_error st \<or> (\<exists>m \<in> set ms. fst m = ascii (CHR ''E''))),
      saw_rfq = (saw_rfq st \<or> (\<exists>m \<in> set ms. fst m = ascii (CHR ''Z''))),
      complete = (complete st \<or> (\<exists>m \<in> set ms. fst m = ascii (CHR ''Z''))),
      n_msgs = n_msgs st + of_nat (length ms),
      last_error = (case filter (\<lambda>m. fst m = ascii (CHR ''E'')) ms of
         [] \<Rightarrow> last_error st
       | es \<Rightarrow> the (error_loop (snd (last es)) 0 zero_error))\<rparr>"
proof (induction ms arbitrary: st)
  case Nil
  then show ?case by simp
next
  case (Cons m ms)
  show ?case
    unfolding foldl_Cons Cons.IH
    by (auto simp: observed_def Let_def split: list.split)
qed

section \<open>Draining\<close>

text \<open>What draining leaves alone.\<close>

definition drain_frame :: "pqwire_ctx \<Rightarrow> pqwire_ctx \<Rightarrow> bool" where
  "drain_frame c c' \<longleftrightarrow>
     (\<exists>evs h t n u. c' = c\<lparr>events := evs, event_head := h, event_tail := t, event_count := n, row_arena_used := u\<rparr>)"

lemma drain_frame_refl [simp]: "drain_frame c c"
  unfolding drain_frame_def
  by (rule exI [of _ "events c"], rule exI [of _ "event_head c"], rule exI [of _ "event_tail c"],
      rule exI [of _ "event_count c"], rule exI [of _ "row_arena_used c"]) simp

lemma drain_frame_trans: "drain_frame a b \<Longrightarrow> drain_frame b c \<Longrightarrow> drain_frame a c"
  unfolding drain_frame_def by force

lemma drain_frameD:
  assumes "drain_frame c c'"
  shows "magic c' = magic c" "role c' = role c" "proto_state c' = proto_state c" "auth_state c' = auth_state c"
    "startup_seen c' = startup_seen c" "output_bytes c' = output_bytes c" "pending_input c' = pending_input c"
    "scram_ctx c' = scram_ctx c" "max_message_size c' = max_message_size c" "event_queue_size c' = event_queue_size c"
    "wf_output c' = wf_output c" "wf_input c' = wf_input c"
  using assms by (auto simp: drain_frame_def output_bytes_def pending_input_def wf_output_def wf_input_def)

lemma dequeue_wf:
  assumes "wf_ctx c" "0 < event_count c"
  shows "\<exists>ev c'. dequeue_event c = Some (Some ev, c') \<and> wf_ctx c' \<and> event_count c' = event_count c - 1 \<and>
     drain_frame c c'"
proof -
  obtain c' where c': "dequeue_event c = Some (Some (hd (ring_items c)), c')" "wf_ring c'"
    "ring_items c' = tl (ring_items c)" "ring_frame (c\<lparr>row_arena_used := row_arena_used c'\<rparr>) c'"
    "row_arena_used c' = (if event_count c = 1 then 0 else row_arena_used c)"
    using dequeue_event_some [OF wf_ctxD(1) [OF assms(1)] assms(2)] by blast
  obtain evs h t n where e: "c' = c\<lparr>row_arena_used := row_arena_used c', events := evs, event_head := h,
      event_tail := t, event_count := n\<rparr>"
    using c'(4) unfolding ring_frame_def by blast
  have f: "drain_frame c c'" unfolding drain_frame_def
    by (rule exI [of _ evs], rule exI [of _ h], rule exI [of _ t], rule exI [of _ n],
        rule exI [of _ "row_arena_used c'"], rule trans [OF e]) simp
  have "set (tl (ring_items c)) \<subseteq> set (ring_items c)" by (cases "ring_items c") auto
  then have "wf_ctx c'"
    using assms(1) c'(2,3,5) ring_frameD [OF c'(4)] drain_frameD(11,12) [OF f]
    by (auto simp: wf_ctx_def wf_scratch_def)
  moreover have "event_count c' = event_count c - 1"
    using arg_cong [OF c'(3), of length] by simp
  ultimately show ?thesis using c'(1) f by blast
qed

lemma drain_events_ok:
  assumes "wf_ctx c" "ctx_ok c"
  shows "\<exists>c'. drain_events c = Some c' \<and> wf_ctx c' \<and> ring_items c' = [] \<and> drain_frame c c'"
  using assms
proof (induction "event_count c" arbitrary: c)
  case 0
  then show ?case
    by (subst drain_events.simps) (simp add: pqwire_next_event_def dequeue_event_def ring_items_def)
next
  case (Suc k)
  obtain ev d where d: "dequeue_event c = Some (Some ev, d)" "wf_ctx d" "event_count d = event_count c - 1"
    "drain_frame c d"
    using dequeue_wf [OF Suc.prems(1)] Suc.hyps(2) by auto
  have "ctx_ok d" using Suc.prems(2) drain_frameD(1) [OF d(4)] by (simp add: ctx_ok_def)
  then obtain c' where "drain_events d = Some c'" "wf_ctx c'" "ring_items c' = []" "drain_frame d c'"
    using Suc.hyps(1) [of d, OF _ d(2)] Suc.hyps(2) d(3) by (metis diff_Suc_1)
  then show ?case
    using d(1,4) Suc.prems(2) drain_frame_trans
    by (subst drain_events.simps) (auto simp: pqwire_next_event_def)
qed

section \<open>Feeding a backend message\<close>

lemma feed_backend_wire:
  assumes "idle c" "can_grow E" "length body + 4 \<le> max_message_size c" "length body + 4 < 2 ^ 32"
  shows "\<exists>x d c'. loaded c (wire_msg t body) x \<and> handle_message x t 5 body = Some d \<and> parse_frame x d \<and>
     drain_frame (d\<lparr>input_len := 0\<rparr>) c' \<and> wf_ctx c' \<and> ring_items c' = [] \<and>
     pqwire_pipeline_feed_backend_msg E c st (Some (wire_msg t body)) =
       Some (Some (0, if t = ascii (CHR ''Z'') then pqwire_note_ready c' else c', observed st (t, body)))"
proof -
  obtain x d where xd: "loaded c (wire_msg t body) x" "handle_message x t 5 body = Some d" "wf_ctx d"
    "parse_frame x d"
    "pqwire_feed_input E c (Some (wire_msg t body)) =
       Some (Some (length (wire_msg t body), d\<lparr>input_len := 0\<rparr>))"
    using feed_single_msg [OF assms] by metis
  have ok: "ctx_ok c" using assms(1) by (simp add: idle_def)
  have "wf_ctx (d\<lparr>input_len := 0\<rparr>)" "ctx_ok (d\<lparr>input_len := 0\<rparr>)"
    using xd(3,4) loadedD(5) [OF xd(1)] ok by (simp_all add: wf_ctx_empty ctx_ok_def parse_frame_def)
  from drain_events_ok [OF this] obtain c' where c': "drain_events (d\<lparr>input_len := 0\<rparr>) = Some c'" "wf_ctx c'"
    "ring_items c' = []" "drain_frame (d\<lparr>input_len := 0\<rparr>) c'" by blast
  have ne: "wire_msg t body \<noteq> []" by (simp add: wire_msg_def)
  have "pqwire_pipeline_feed_backend_msg E c st (Some (wire_msg t body)) =
       Some (Some (0, if t = ascii (CHR ''Z'') then pqwire_note_ready c' else c', observed st (t, body)))"
    using ok ne xd(5) c'(1) observe_wire [OF assms(4), of st t]
    by (simp add: pqwire_pipeline_feed_backend_msg_def)
  then show ?thesis using xd(1,2,4) c'(2-4) by blast
qed

section \<open>Properties\<close>

text \<open>
  C28. Observing a pipeline message by message gives its outcome: whether an ErrorResponse and
  whether ReadyForQuery occurred, how many messages there were, and the fields of the last
  ErrorResponse.
\<close>

theorem pipeline_status_correct:
  assumes "\<forall>m \<in> set ms. length (snd m) + 4 < 2 ^ 32"
  shows "observe_all pqwire_pipeline_status_init (map (\<lambda>(t, b). wire_msg t b) ms) = Some
     \<lparr>saw_error = (\<exists>m \<in> set ms. fst m = ascii (CHR ''E'')),
      saw_rfq = (\<exists>m \<in> set ms. fst m = ascii (CHR ''Z'')),
      complete = (\<exists>m \<in> set ms. fst m = ascii (CHR ''Z'')),
      n_msgs = of_nat (length ms),
      last_error = (case filter (\<lambda>m. fst m = ascii (CHR ''E'')) ms of
         [] \<Rightarrow> zero_error
       | es \<Rightarrow> the (error_loop (snd (last es)) 0 zero_error))\<rparr>"
  using observe_all_wire [OF assms, of pqwire_pipeline_status_init]
  by (simp add: foldl_observed pqwire_pipeline_status_init_def cong: list.case_cong)

theorem pipeline_status_correct_witness:
  "observe_all pqwire_pipeline_status_init [wire_msg (ascii (CHR ''E'')) [0], wire_msg (ascii (CHR ''Z'')) [73]] =
   Some \<lparr>saw_error = True, saw_rfq = True, complete = True, n_msgs = 2,
     last_error = the (error_loop [0] 0 zero_error)\<rparr>"
  using pipeline_status_correct [of "[(ascii (CHR ''E''), [0]), (ascii (CHR ''Z''), [73])]"] by simp

text \<open>
  C29. A ReadyForQuery fed through the pipeline helper leaves the client ready for the next
  pipeline: READY, idle, its queue empty, and unlike after \<open>pqwire_reset\<close> with its
  authentication state and its unsent output intact.
\<close>

theorem pipeline_ready_for_query:
  assumes "idle c" "role c = PQWIRE_ROLE_CLIENT" "can_grow E"
    "length body + 4 \<le> max_message_size c" "length body + 4 < 2 ^ 32"
  shows "\<exists>c' st'. pqwire_pipeline_feed_backend_msg E c st (Some (wire_msg (ascii (CHR ''Z'')) body)) =
       Some (Some (0, c', st')) \<and> complete st' \<and> proto_state c' = PROTO_STATE_READY \<and> idle c' \<and>
     ring_items c' = [] \<and> auth_state c' = auth_state c \<and> output_bytes c' = output_bytes c"
proof -
  obtain x d c' where r: "loaded c (wire_msg (ascii (CHR ''Z'')) body) x"
    "handle_message x (ascii (CHR ''Z'')) 5 body = Some d" "parse_frame x d"
    "drain_frame (d\<lparr>input_len := 0\<rparr>) c'" "wf_ctx c'" "ring_items c' = []"
    "pqwire_pipeline_feed_backend_msg E c st (Some (wire_msg (ascii (CHR ''Z'')) body)) =
       Some (Some (0, pqwire_note_ready c', observed st (ascii (CHR ''Z''), body)))"
    using feed_backend_wire [OF assms(1,3,4,5), of "ascii (CHR ''Z'')" st] by auto
  note L = loadedD [OF r(1)] and D = drain_frameD [OF r(4)]
  have x: "wf_ctx x" using loaded_wf [OF r(1)] assms(1) by (simp add: idle_def)
  obtain y where y: "enqueue_event x (plain_event PQ_EVENT_READY_FOR_QUERY) = Some y"
    "d = y\<lparr>proto_state := PROTO_STATE_READY\<rparr>"
    using r(2) L(1) assms(2) by (auto simp: message_defs handle_ready_for_query_def bind_eq_Some_conv)
  have a: "auth_state d = auth_state c" using y L(17) ring_frameD [OF enqueued(2) [OF y(1) x]] by simp
  have o: "output_bytes d = output_bytes c" using r(3) L(16) by (simp add: output_bytes_def parse_frame_def)
  have ok: "ctx_ok c'" using D(1) r(3) L(5) assms(1) by (simp add: ctx_ok_def idle_def parse_frame_def)
  let ?c = "pqwire_note_ready c'"
  have n: "?c = c'\<lparr>proto_state := PROTO_STATE_READY\<rparr>" using ok by (simp add: pqwire_note_ready_def)
  have "idle ?c"
    using r(3,5) ok D(2,5,7) L(1) assms(2)
    by (simp add: n idle_def wf_ctx_same ctx_ok_def pending_input_def parse_frame_def)
  moreover have "ring_items ?c = []" "auth_state ?c = auth_state c" "output_bytes ?c = output_bytes c"
    using r(6) D(4,6) a o by (simp_all add: n output_bytes_def)
  ultimately show ?thesis using r(7) n by (auto simp: observed_def)
qed

theorem pipeline_ready_for_query_witness:
  "\<exists>c' st'. pqwire_pipeline_feed_backend_msg roomy_env (fresh_ctx PQWIRE_ROLE_CLIENT)
       pqwire_pipeline_status_init (Some (wire_msg (ascii (CHR ''Z'')) [73])) = Some (Some (0, c', st')) \<and>
     complete st' \<and> proto_state c' = PROTO_STATE_READY \<and> idle c' \<and> ring_items c' = [] \<and>
     auth_state c' = auth_state (fresh_ctx PQWIRE_ROLE_CLIENT) \<and>
     output_bytes c' = output_bytes (fresh_ctx PQWIRE_ROLE_CLIENT)"
  by (rule pipeline_ready_for_query) (simp_all add: idle_def)

end
