(* ===== verification/Stream_Feed.thy ===== *)
theory Stream_Feed
  imports Params Pipeline
begin

text \<open>
  Several messages in one call of \<open>pqwire_feed_input\<close> (\<open>src/src/pqwire.c\<close>, lines 825-910). The
  loop handles them one after the other and moves the rest of the input to the front of the
  buffer in between, under the pointers that the events of this call already hold. The
  theory says what the sequence of handlers computes (\<open>feed_msgs\<close>), shows that the pipeline
  this library itself sends arrives complete, and which Bind does not.
\<close>

section \<open>A sequence of messages in one feed\<close>

text \<open>The context after a message was handled and the rest of the input moved to the front.\<close>

definition shifted :: "pqwire_ctx \<Rightarrow> bytes \<Rightarrow> pqwire_ctx" where
  "shifted d rest =
     d\<lparr>input_buf := rest @ drop (length rest) (input_buf d), input_len := length rest\<rparr>"

lemma shifted_fields [simp]:
  "role (shifted d r) = role d" "magic (shifted d r) = magic d" "startup_seen (shifted d r) = startup_seen d"
  "max_message_size (shifted d r) = max_message_size d" "event_queue_size (shifted d r) = event_queue_size d"
  "input_epoch (shifted d r) = input_epoch d" "input_len (shifted d r) = length r"
  "proto_state (shifted d r) = proto_state d" "ring_items (shifted d r) = ring_items d"
  "input_buf (shifted d r) = r @ drop (length r) (input_buf d)"
  by (simp_all add: shifted_def ring_items_def)

lemma pending_shifted [simp]: "pending_input (shifted d r) = r"
  by (simp add: shifted_def pending_input_def)

lemma wf_shifted: "wf_ctx d \<Longrightarrow> length r \<le> length (input_buf d) \<Longrightarrow> wf_ctx (shifted d r)"
  unfolding shifted_def by (rule wf_ctx_input) (auto simp: wf_defs)

definition typed_phase :: "pqwire_ctx \<Rightarrow> bool" where
  "typed_phase c \<longleftrightarrow> (role c = PQWIRE_ROLE_SERVER \<longrightarrow> startup_seen c)"

lemma feed_loop_msg:
  assumes "wf_ctx x" "pending_input x = wire_msg t body @ rest" "typed_phase x"
    "length body + 4 \<le> max_message_size x" "length body + 4 < 2 ^ 32"
  obtains d where "handle_message x t 5 body = Some d" "wf_ctx d" "parse_frame x d"
    "feed_loop x = feed_loop (shifted d rest)" "wf_ctx (shifted d rest)"
proof -
  let ?m = "wire_msg t body" and ?n = "of_nat (length body + 4) :: u32" and ?tot = "1 + (length body + 4)"
  have wi: "wf_input x" using assms(1) by (simp add: wf_ctx_def)
  have il: "input_len x = ?tot + length rest" using length_pending [OF wi] assms(2) by simp
  have bl: "input_len x \<le> length (input_buf x)" using wi by (simp add: wf_input_def)
  note hdr = wire_msg_header(1) [OF assms(5), of t rest] wire_msg_header(2) [OF assms(5)]
  have n: "rd32_be (input_buf x) 1 = Some ?n" "unat ?n = length body + 4"
    using hdr assms(2) rd32_be_take [of 1 "input_len x" "input_buf x"] bl il
    by (simp_all add: pending_input_def)
  have "peek (input_buf x) 0 = peek (pending_input x) 0"
    using il bl by (cases "input_buf x") (simp_all add: pending_input_def peek_def)
  then have t: "peek (input_buf x) 0 = Some t" using assms(2) by simp
  have b: "mem_read (input_buf x) 5 (length body) = Some body"
    using pending_body [OF wi, of 5 "length body"] il assms(2) drop_wire_msg [of 0 t body] by simp
  obtain d where d: "handle_message x t 5 body = Some d" "wf_ctx d" "parse_frame x d"
    using handle_message_safe [OF assms(1)] unfolding safe_step_def by blast
  have p: "input_len d = ?tot + length rest" "input_buf d = input_buf x" "pending_input d = ?m @ rest"
    using d(3) il assms(2) by (simp_all add: parse_frame_def pending_input_def)
  have r: "mem_read (input_buf d) ?tot (length rest) = Some rest"
    using pending_body [of d ?tot "length rest"] p d(2) drop_wire_msg [of "length body" t body]
    by (simp add: wf_ctx_def)
  have "shift_input d ?tot (input_len d - ?tot) = Some (d\<lparr>input_buf := rest @ drop (length rest) (input_buf d)\<rparr>)"
    using r p(1,2) bl il by (simp add: shift_input_def)
  then have "feed_step x = Some (Continue (shifted d rest))"
    using assms(3,4) il n t b d(1) p(1)
    by (auto simp: feed_step_def typed_step_def typed_phase_def Let_def shifted_def)
  then have "feed_loop x = feed_loop (shifted d rest)" by (subst feed_loop.simps) simp
  moreover have "wf_ctx (shifted d rest)" using wf_shifted [OF d(2)] p(2) bl il by simp
  ultimately show thesis using that d by blast
qed

text \<open>Handlers run in order, each on the buffer with the messages that are left.\<close>

fun wire_all :: "(byte \<times> bytes) list \<Rightarrow> bytes" where
  "wire_all [] = []"
| "wire_all ((t, body) # ms) = wire_msg t body @ wire_all ms"

fun run_msgs :: "pqwire_ctx \<Rightarrow> (byte \<times> bytes) list \<Rightarrow> pqwire_ctx option" where
  "run_msgs x [] = Some x"
| "run_msgs x ((t, body) # ms) =
     Option.bind (handle_message x t 5 body) (\<lambda>d. run_msgs (shifted d (wire_all ms)) ms)"

lemma feed_loop_msgs:
  assumes "wf_ctx x" "pending_input x = wire_all ms" "typed_phase x"
    "\<forall>m \<in> set ms. length (snd m) + 4 \<le> max_message_size x \<and> length (snd m) + 4 < 2 ^ 32"
  shows "feed_loop x = Some (run_msgs x ms) \<and> run_msgs x ms \<noteq> None"
  using assms
proof (induction ms arbitrary: x rule: wire_all.induct)
  case 1
  then have "input_len x = 0" using length_pending [of x] by (simp add: wf_ctx_def)
  then show ?case by (simp add: feed_loop_empty)
next
  case (2 t body ms)
  obtain d where d: "handle_message x t 5 body = Some d" "parse_frame x d"
    "feed_loop x = feed_loop (shifted d (wire_all ms))" "wf_ctx (shifted d (wire_all ms))"
    using feed_loop_msg [OF 2(2), of t body "wire_all ms"] 2(3-5) by auto
  have "typed_phase (shifted d (wire_all ms))" "max_message_size d = max_message_size x"
    using d(2) 2(4) by (simp_all add: typed_phase_def parse_frame_def)
  then have "feed_loop (shifted d (wire_all ms)) = Some (run_msgs (shifted d (wire_all ms)) ms) \<and>
      run_msgs (shifted d (wire_all ms)) ms \<noteq> None"
    using 2(1) [OF d(4)] 2(5) by simp
  then show ?case using d(1,3) by simp
qed

lemma feed_msgs:
  assumes "idle s" "can_grow E"
    "\<forall>m \<in> set ms. length (snd m) + 4 \<le> max_message_size s \<and> length (snd m) + 4 < 2 ^ 32"
  obtains x s' where "loaded s (wire_all ms) x" "wf_ctx x" "run_msgs x ms = Some s'"
    "pqwire_feed_input E s (Some (wire_all ms)) = Some (Some (length (wire_all ms), s'))"
proof -
  have s: "wf_ctx s" "ctx_ok s" "pending_input s = []" "typed_phase s"
    using assms(1) by (simp_all add: idle_def typed_phase_def)
  obtain x where x: "loaded s (wire_all ms) x"
    "pqwire_feed_input E s (Some (wire_all ms)) =
       map_option (map_option (\<lambda>c. (length (wire_all ms), c))) (feed_loop x)"
    using feed_loads [OF s(1-3) assms(2)] .
  note L = loadedD [OF x(1)]
  have "wf_ctx x" using loaded_wf [OF x(1) s(1)] .
  moreover have "feed_loop x = Some (run_msgs x ms) \<and> run_msgs x ms \<noteq> None"
    by (rule feed_loop_msgs [OF \<open>wf_ctx x\<close>]) (use L(1,6,7,15) s(4) assms(3) in \<open>simp_all add: typed_phase_def\<close>)
  ultimately show thesis using that x by fastforce
qed

section \<open>Messages that only queue an event\<close>

definition same_place :: "pqwire_ctx \<Rightarrow> pqwire_ctx \<Rightarrow> bool" where
  "same_place x y \<longleftrightarrow> role y = role x \<and> input_epoch y = input_epoch x"

lemma mem_read_drop:
  assumes "drop k a = drop k b" "length a = length b" "k \<le> off"
  shows "mem_read a off n = mem_read b off n"
proof -
  have "drop off a = drop off b"
    using arg_cong [OF assms(1), of "drop (off - k)"] assms(3) by simp
  then show ?thesis using assms(2) by (simp add: mem_read_def)
qed

lemma length_wire_all_Cons [simp]: "length (wire_all (m # ms)) = length (snd m) + 5 + length (wire_all ms)"
  by (cases m) simp

lemma run_msgs_event:
  assumes "handle_message x t 5 body = enqueue_event x ev" "wf_ctx x"
    "pending_input x = wire_all ((t, body) # ms)"
  obtains y where "run_msgs x ((t, body) # ms) = run_msgs y ms" "wf_ctx y" "same_place x y"
    "pending_input y = wire_all ms" "event_queue_size y = event_queue_size x"
    "ring_items y = keep_last (event_queue_size x) (ring_items x @ [ev])"
    "input_buf y = wire_all ms @ drop (length (wire_all ms)) (input_buf x)"
    "length (input_buf y) = length (input_buf x)"
proof -
  obtain d where d: "enqueue_event x ev = Some d" "wf_ctx d"
    using handle_message_safe [OF assms(2), of t 5 body] assms(1) by (auto simp: safe_step_def)
  note f = ring_frameD [OF enqueued(2) [OF d(1) assms(2)]] and q = enqueued(1) [OF d(1) assms(2)]
  have "length (wire_all ((t, body) # ms)) \<le> length (input_buf x)"
    using arg_cong [OF assms(3), of length] assms(2) by (auto simp: wf_defs pending_input_def)
  then have l: "length (wire_all ms) \<le> length (input_buf d)" using f by simp
  show thesis
    by (rule that [of "shifted d (wire_all ms)"])
      (use assms(1) d q f l in \<open>simp_all add: wf_shifted same_place_def\<close>)
qed

lemma run_msgs_events:
  assumes "list_all2 (\<lambda>(t, body) ev. \<forall>y. same_place x y \<longrightarrow> handle_message y t 5 body = enqueue_event y ev) ms evs"
    "wf_ctx x" "pending_input x = wire_all ms" "run_msgs x ms = Some s'"
  shows "ring_items s' = keep_last (event_queue_size x) (ring_items x @ evs) \<and> same_place x s' \<and>
     length (input_buf s') = length (input_buf x) \<and>
     drop (length (wire_all (tl ms))) (input_buf s') = drop (length (wire_all (tl ms))) (input_buf x)"
  using assms
proof (induction ms arbitrary: x evs)
  case Nil
  then have "length (ring_items x) \<le> event_queue_size x" by (auto simp: wf_defs)
  with Nil show ?case by (simp add: same_place_def)
next
  case (Cons m ms)
  obtain t body ev evs' where m: "m = (t, body)" "evs = ev # evs'" by (cases m, cases evs) (use Cons.prems(1) in auto)
  have h: "handle_message x t 5 body = enqueue_event x ev"
    using Cons.prems(1) m by (simp add: same_place_def)
  obtain y where y: "run_msgs x (m # ms) = run_msgs y ms" "wf_ctx y" "same_place x y"
    "pending_input y = wire_all ms" "event_queue_size y = event_queue_size x"
    "ring_items y = keep_last (event_queue_size x) (ring_items x @ [ev])"
    "input_buf y = wire_all ms @ drop (length (wire_all ms)) (input_buf x)"
    "length (input_buf y) = length (input_buf x)"
    using run_msgs_event [OF h Cons.prems(2), of ms] Cons.prems(3) m(1) by blast
  have "list_all2 (\<lambda>(t, body) ev. \<forall>z. same_place y z \<longrightarrow> handle_message z t 5 body = enqueue_event z ev) ms evs'"
    using Cons.prems(1) m y(3) by (auto simp: same_place_def elim!: list_all2_mono)
  from Cons.IH [OF this y(2,4)] Cons.prems(4) y(1)
  have r: "ring_items s' = keep_last (event_queue_size y) (ring_items y @ evs')" "same_place y s'"
    "length (input_buf s') = length (input_buf y)"
    "drop (length (wire_all (tl ms))) (input_buf s') = drop (length (wire_all (tl ms))) (input_buf y)" by auto
  have "length (wire_all (tl ms)) \<le> length (wire_all ms)" by (cases ms) auto
  then have "drop (length (wire_all ms)) (input_buf s') = drop (length (wire_all ms)) (input_buf y)"
    using arg_cong [OF r(4), of "drop (length (wire_all ms) - length (wire_all (tl ms)))"] by simp
  then show ?case
    using r(1-3) y(3,5-8) m keep_last_snoc [of "event_queue_size x" "ring_items x @ [ev]" evs']
    by (simp add: same_place_def)
qed

text \<open>The handlers of the extended-query messages of the wire format, on a server.\<close>

lemma handle_extended:
  assumes "role y = PQWIRE_ROLE_SERVER"
  shows "is_cstr st \<Longrightarrow> is_cstr q \<Longrightarrow> length oids \<le> PQWIRE_MAX_PARAM_TYPES \<Longrightarrow>
      handle_message y (ascii (CHR ''P'')) 5 (parse_body st q oids) =
        enqueue_event y (mk_event PQ_EVENT_PARSE (PParse (parse_event st q oids)))"
    "is_cstr portal \<Longrightarrow> is_cstr st \<Longrightarrow> length fs \<le> PQWIRE_MAX_BIND_PARAMS \<Longrightarrow>
      length vs \<le> PQWIRE_MAX_BIND_PARAMS \<Longrightarrow> \<forall>v \<in> set vs. length (c_str v) < 2 ^ 31 \<Longrightarrow>
      length rs \<le> PQWIRE_MAX_BIND_PARAMS \<Longrightarrow>
      handle_message y (ascii (CHR ''B'')) 5 (bind_body portal st fs vs rs) =
        enqueue_event y (mk_event PQ_EVENT_BIND (PBind (bind_event (body_ptr y 5) portal st fs vs rs)))"
    "is_cstr portal \<Longrightarrow> length portal < PQWIRE_MAX_PORTAL_NAME \<Longrightarrow>
      handle_message y (ascii (CHR ''E'')) 5 (execute_body portal m) =
        enqueue_event y (mk_event PQ_EVENT_EXECUTE (PExecute \<lparr>ex_portal = portal, ex_max_rows = m\<rparr>))"
    "handle_message y (ascii (CHR ''S'')) 5 [] = enqueue_event y (plain_event PQ_EVENT_SYNC)"
  using assms
  by (simp_all add: message_defs parse_parse_msg_def decode_parse_body parse_bind_msg_def decode_bind_body
      parse_execute_msg_def decode_execute_body copy_cstr_short)

section \<open>The unnamed pipeline\<close>

lemma unnamed_pipeline_sends:
  fixes no nf np nr :: u16
  assumes "wf_ctx c" "ctx_ok c" "can_grow E" "holds (unat no) oids" "length q < PQWIRE_MAX_QUERY_LEN"
    "unat no \<le> PQWIRE_MAX_PARAM_TYPES"
    "holds (unat nf) fmts" "value_args (unat np) lens vals vs" "holds (unat nr) rfmts"
    "length (bind_body [] [] (arg_list 0 fmts (unat nf)) vs (arg_list 0 rfmts (unat nr))) \<le> 64 + 256 * unat np"
  shows "sends E c (pqwire_send_unnamed_pipeline E c (Some q) oids no fmts nf lens vals np rfmts nr m)
     (wire_all [(ascii (CHR ''P''), parse_body [] q (arg_list 0 oids (unat no))),
        (ascii (CHR ''B''), bind_body [] [] (arg_list 0 fmts (unat nf)) vs (arg_list 0 rfmts (unat nr))),
        (ascii (CHR ''E''), execute_body [] m), (ascii (CHR ''S''), [])])"
proof -
  have ok: "wf_output d" "ctx_ok d" if "wf_ctx d" "output_frame c d" for d
    using that assms(2) by (auto simp: ctx_ok_def output_frameD)
  have "length (parse_body [] q (arg_list 0 oids (unat no))) \<le> 4352"
    using assms(4-6) by (simp add: parse_body_def wire_simps be32.length_arg_encs limit_defs)
  then have P: "sends E c (pqwire_send_parse E c (Some []) (Some q) oids no)
      (wire_msg (ascii (CHR ''P'')) (parse_body [] q (arg_list 0 oids (unat no))))"
    using send_parse_sends [of c no oids "Some []" q E] assms(1,2,4) by auto
  have B: "sends E d (pqwire_send_bind E d (Some []) (Some []) fmts nf lens vals np rfmts nr)
      (wire_msg (ascii (CHR ''B'')) (bind_body [] [] (arg_list 0 fmts (unat nf)) vs (arg_list 0 rfmts (unat nr))))"
    if "wf_ctx d" "output_frame c d" for d
    using send_bind_sends [OF ok [OF that] assms(3,7,8,9), of "Some []" "Some []"] assms(10) by simp
  have X: "sends E d (pqwire_send_execute E d (Some []) m) (wire_msg (ascii (CHR ''E'')) (execute_body [] m))"
    if "wf_ctx d" "output_frame c d" for d
    using send_execute_sends [OF ok [OF that], of "Some []" E m] by (simp add: limit_defs)
  have S: "sends E d (pqwire_send_sync E d) (wire_msg (ascii (CHR ''S'')) [])" if "wf_ctx d" "output_frame c d" for d
    by (rule send_empty_sends(2) [OF ok [OF that]])
  show ?thesis
    unfolding pqwire_send_unnamed_pipeline_def wire_all.simps append_Nil2
    by (intro sends_then P B X S assms(1)) (auto intro: output_frame_trans)
qed

lemma deliver_msgs:
  assumes "sends E c r (wire_all ms)" "sender E c" "accepts s ro n"
    "\<forall>m \<in> set ms. length (snd m) \<le> n"
    and "\<And>x s'. loaded s (wire_all ms) x \<Longrightarrow> wf_ctx x \<Longrightarrow> run_msgs x ms = Some s' \<Longrightarrow> P s'"
  shows "delivers E r s P"
proof -
  have a: "idle s" "can_grow E" "output_bytes c = []" using assms(2,3) by (auto simp: accepts_def sender_def)
  have "\<forall>m \<in> set ms. length (snd m) + 4 \<le> max_message_size s \<and> length (snd m) + 4 < 2 ^ 32"
    using assms(3,4) by (fastforce simp: accepts_def)
  from feed_msgs [OF a(1,2) this] obtain x s' where "loaded s (wire_all ms) x" "wf_ctx x" "run_msgs x ms = Some s'"
    "pqwire_feed_input E s (Some (wire_all ms)) = Some (Some (length (wire_all ms), s'))" by blast
  moreover obtain c' where "r = Some (0, c')" "output_bytes c' = wire_all ms"
    using assms(1) a by (auto simp: sends_def)
  ultimately show ?thesis using assms(5) unfolding delivers_def by auto
qed

lemma body_ptr_same: "same_place x y \<Longrightarrow> body_ptr y = body_ptr x"
  by (simp add: same_place_def body_ptr_def fun_eq_iff)

text \<open>
  Bind, Execute and Sync with 15 bytes of messages behind the Bind: the values survive.
\<close>

lemma bind_execute_sync:
  fixes m :: u32
  assumes y: "wf_ctx y" "role y = PQWIRE_ROLE_SERVER"
    "pending_input y = wire_all [(ascii (CHR ''B''), bind_body [] [] fs vs rs), (ascii (CHR ''E''), execute_body [] m),
       (ascii (CHR ''S''), [])]"
    "run_msgs y [(ascii (CHR ''B''), bind_body [] [] fs vs rs), (ascii (CHR ''E''), execute_body [] m),
       (ascii (CHR ''S''), [])] = Some s'"
    and l: "length fs \<le> PQWIRE_MAX_BIND_PARAMS" "length vs \<le> PQWIRE_MAX_BIND_PARAMS"
      "\<forall>v \<in> set vs. length (c_str v) < 2 ^ 31" "length rs \<le> PQWIRE_MAX_BIND_PARAMS"
  shows "ring_items s' = keep_last (event_queue_size y) (ring_items y @
      [mk_event PQ_EVENT_BIND (PBind (bind_event (body_ptr y 5) [] [] fs vs rs)),
       mk_event PQ_EVENT_EXECUTE (PExecute \<lparr>ex_portal = [], ex_max_rows = m\<rparr>), plain_event PQ_EVENT_SYNC])"
    "reads_values s' (bind_event (body_ptr y 5) [] [] fs vs rs) vs"
proof -
  let ?b = "bind_body [] [] fs vs rs"
  let ?ms = "[(ascii (CHR ''B''), ?b), (ascii (CHR ''E''), execute_body [] m), (ascii (CHR ''S''), [])]"
  let ?evs = "[mk_event PQ_EVENT_BIND (PBind (bind_event (body_ptr y 5) [] [] fs vs rs)),
      mk_event PQ_EVENT_EXECUTE (PExecute \<lparr>ex_portal = [], ex_max_rows = m\<rparr>), plain_event PQ_EVENT_SYNC]"
  have e: "is_cstr []" "length ([] :: bytes) < PQWIRE_MAX_PORTAL_NAME" by (simp_all add: is_cstr_def limit_defs)
  have B: "handle_message z (ascii (CHR ''B'')) 5 ?b = enqueue_event z (hd ?evs)" if "same_place y z" for z
    using handle_extended(2) [OF _ e(1,1) l, of z] that y(2) body_ptr_same [OF that] by (simp add: same_place_def)
  have "list_all2 (\<lambda>(t, body) ev. \<forall>z. same_place y z \<longrightarrow> handle_message z t 5 body = enqueue_event z ev) ?ms ?evs"
    using B handle_extended(3) [OF _ e, of _ m] handle_extended(4) y(2) by (simp add: same_place_def)
  from run_msgs_events [OF this y(1,3,4)]
  have r: "ring_items s' = keep_last (event_queue_size y) (ring_items y @ ?evs)"
    "input_epoch s' = input_epoch y" "length (input_buf s') = length (input_buf y)"
    "drop 15 (input_buf s') = drop 15 (input_buf y)"
    by (simp_all add: same_place_def execute_body_def wire_simps)
  show "ring_items s' = keep_last (event_queue_size y) (ring_items y @ ?evs)" by (rule r(1))
  have "take (length (wire_msg (ascii (CHR ''B'')) ?b)) (pending_input y) = wire_msg (ascii (CHR ''B'')) ?b"
    using y(3) by (simp del: length_wire_msg)
  then have b: "take (length (wire_msg (ascii (CHR ''B'')) ?b)) (input_buf y) = wire_msg (ascii (CHR ''B'')) ?b"
    using arg_cong [OF y(3), of length] length_pending [of y] y(1)
    by (simp add: pending_input_def wf_ctx_def min_def)
  show "reads_values s' (bind_event (body_ptr y 5) [] [] fs vs rs) vs"
    by (rule bind_event_reads_in [OF r(2) _ l(3)])
      (use wire_body_read [OF b] mem_read_drop [OF r(4,3)] in simp)
qed

text \<open>
  C11. The unnamed pipeline end to end: one call sends Parse, Bind, Execute and Sync; the
  server, fed all four at once, queues their four events in order, and the values of the
  Bind can still be read through its pointers afterwards, although the input buffer has
  been moved three times since they were taken.
\<close>

theorem unnamed_pipeline_delivered:
  fixes no nf np nr :: u16
  assumes "sender E c" "holds (unat no) oids" "unat no \<le> PQWIRE_MAX_PARAM_TYPES"
    "is_cstr q" "length q < PQWIRE_MAX_QUERY_LEN"
    "holds (unat nf) fmts" "value_args (unat np) lens vals vs" "holds (unat nr) rfmts"
    "unat nf \<le> PQWIRE_MAX_BIND_PARAMS" "unat np \<le> PQWIRE_MAX_BIND_PARAMS" "unat nr \<le> PQWIRE_MAX_BIND_PARAMS"
  defines "fs \<equiv> arg_list 0 fmts (unat nf)" and "rs \<equiv> arg_list 0 rfmts (unat nr)"
    and "os \<equiv> arg_list 0 oids (unat no)"
  assumes "length (bind_body [] [] fs vs rs) \<le> 64 + 256 * unat np"
    "accepts s PQWIRE_ROLE_SERVER (max (length (parse_body [] q os)) (length (bind_body [] [] fs vs rs)))"
  shows "delivers E (pqwire_send_unnamed_pipeline E c (Some q) oids no fmts nf lens vals np rfmts nr m) s
     (\<lambda>s'. \<exists>bp. ring_items s' = keep_last (event_queue_size s) (ring_items s @
          [mk_event PQ_EVENT_PARSE (PParse (parse_event [] q os)),
           mk_event PQ_EVENT_BIND (PBind (bind_event bp [] [] fs vs rs)),
           mk_event PQ_EVENT_EXECUTE (PExecute \<lparr>ex_portal = [], ex_max_rows = m\<rparr>),
           plain_event PQ_EVENT_SYNC]) \<and>
        reads_values s' (bind_event bp [] [] fs vs rs) vs)"
proof -
  let ?p = "(ascii (CHR ''P''), parse_body [] q os)"
  let ?ms = "[(ascii (CHR ''B''), bind_body [] [] fs vs rs), (ascii (CHR ''E''), execute_body [] m), (ascii (CHR ''S''), [])]"
  have v: "\<forall>v \<in> set vs. length (c_str v) < 2 ^ 31" "length vs \<le> PQWIRE_MAX_BIND_PARAMS"
    using assms(7,10) by (auto simp: value_args_def in_set_conv_nth)
  have l: "length os \<le> PQWIRE_MAX_PARAM_TYPES" "length fs \<le> PQWIRE_MAX_BIND_PARAMS" "length rs \<le> PQWIRE_MAX_BIND_PARAMS"
    using assms(2,3,6,8,9,11) by (simp_all add: fs_def rs_def os_def)
  have c: "wf_ctx c" "ctx_ok c" "can_grow E" using assms(1) by (simp_all add: sender_def)
  show ?thesis
  proof (rule deliver_msgs [OF _ assms(1,16)])
    show "sends E c (pqwire_send_unnamed_pipeline E c (Some q) oids no fmts nf lens vals np rfmts nr m) (wire_all (?p # ?ms))"
      unfolding fs_def rs_def os_def
      by (rule unnamed_pipeline_sends [OF c assms(2,5,3,6-8) assms(15) [unfolded fs_def rs_def]])
    show "\<forall>m' \<in> set (?p # ?ms). length (snd m') \<le> max (length (parse_body [] q os)) (length (bind_body [] [] fs vs rs))"
      by (simp add: execute_body_def bind_body_def wire_simps)
  next
    fix x s'
    assume x: "loaded s (wire_all (?p # ?ms)) x" "wf_ctx x" "run_msgs x (?p # ?ms) = Some s'"
    note L = loadedD [OF x(1)]
    have ro: "role x = PQWIRE_ROLE_SERVER" using L(1) assms(16) by (simp add: accepts_def)
    obtain y where y: "run_msgs x (?p # ?ms) = run_msgs y ?ms" "wf_ctx y" "same_place x y"
      "pending_input y = wire_all ?ms" "event_queue_size y = event_queue_size x"
      "ring_items y = keep_last (event_queue_size x) (ring_items x @ [mk_event PQ_EVENT_PARSE (PParse (parse_event [] q os))])"
      using run_msgs_event [OF handle_extended(1) [OF ro _ assms(4) l(1), of "[]"] x(2), of ?ms] L(15)
      by (auto simp: is_cstr_def)
    have "role y = PQWIRE_ROLE_SERVER" using y(3) ro by (simp add: same_place_def)
    from bind_execute_sync [OF y(2) this y(4) x(3) [unfolded y(1)] l(2) v(2,1) l(3)] y(5,6) L(2,3)
    show "\<exists>bp. ring_items s' = keep_last (event_queue_size s) (ring_items s @
          [mk_event PQ_EVENT_PARSE (PParse (parse_event [] q os)),
           mk_event PQ_EVENT_BIND (PBind (bind_event bp [] [] fs vs rs)),
           mk_event PQ_EVENT_EXECUTE (PExecute \<lparr>ex_portal = [], ex_max_rows = m\<rparr>),
           plain_event PQ_EVENT_SYNC]) \<and>
        reads_values s' (bind_event bp [] [] fs vs rs) vs"
      by (intro exI [of _ "body_ptr y 5"]) (simp add: keep_last_snoc)
  qed
qed

theorem unnamed_pipeline_delivered_witness:
  "delivers roomy_env (pqwire_send_unnamed_pipeline roomy_env (fresh_ctx PQWIRE_ROLE_CLIENT) (Some (text_of ''SELECT $1''))
       None 0 None 0 (Some [3]) (Some [Some [65, 66, 67]]) 1 None 0 7) started_server
     (\<lambda>s'. \<exists>bp. ring_items s' = keep_last (event_queue_size started_server) (ring_items started_server @
          [mk_event PQ_EVENT_PARSE (PParse (parse_event [] (text_of ''SELECT $1'') (arg_list 0 None (unat (0 :: u16))))),
           mk_event PQ_EVENT_BIND (PBind (bind_event bp [] [] (arg_list 0 None (unat (0 :: u16))) [Some [65, 66, 67]]
             (arg_list 0 None (unat (0 :: u16))))),
           mk_event PQ_EVENT_EXECUTE (PExecute \<lparr>ex_portal = [], ex_max_rows = 7\<rparr>),
           plain_event PQ_EVENT_SYNC]) \<and>
        reads_values s' (bind_event bp [] [] (arg_list 0 None (unat (0 :: u16))) [Some [65, 66, 67]]
          (arg_list 0 None (unat (0 :: u16)))) [Some [65, 66, 67]])"
  by (rule unnamed_pipeline_delivered)
    (auto simp: is_cstr_def limit_defs arg_list_def parse_body_def bind_body_def wire_simps value_args_def arg_at_def)

section \<open>Values that do not survive\<close>

lemma keep_last_two: "2 \<le> n \<Longrightarrow> a \<in> set (keep_last n (xs @ [a, b]))"
  by (auto simp: keep_last_def)

lemma first_value_view:
  "pv_data (bi_params (bind_event bp [] [] [] (Some v # vs) rs) ! 0) = bp 10"
  "pv_length (bi_params (bind_event bp [] [] [] (Some v # vs) rs) ! 0) = of_nat (length v)"
  by (simp_all add: bind_event_def Let_def nth_pad_to)

text \<open>
  C33. The pointers of a Bind event do not survive what follows it in the same feed: when a
  Parse with a long enough query is pipelined behind a Bind, the application that reads the
  first parameter through the event after \<open>pqwire_feed_input\<close> returned gets a piece of the
  query text instead.
\<close>

theorem pipelined_bind_clobbered:
  assumes "idle s" "role s = PQWIRE_ROLE_SERVER" "can_grow E" "2 \<le> event_queue_size s"
    "length v < 2 ^ 31" "is_cstr q" "9 + length v \<le> length q"
    "length v + 16 \<le> max_message_size s" "length q + 8 \<le> max_message_size s" "max_message_size s < 2 ^ 32"
  shows "\<exists>s' b. pqwire_feed_input E s (Some (wire_msg (ascii (CHR ''B'')) (bind_body [] [] [] [Some v] []) @
         wire_msg (ascii (CHR ''P'')) (parse_body [] q []))) = Some (Some (length v + length q + 26, s')) \<and>
     mk_event PQ_EVENT_BIND (PBind b) \<in> set (ring_items s') \<and>
     pv_length (bi_params b ! 0) = of_nat (length v) \<and>
     deref s' (pv_data (bi_params b ! 0)) (length v) = Some (take (length v) (drop 9 q))"
proof -
  let ?bb = "bind_body [] [] [] [Some v] []" and ?pb = "parse_body [] q []"
  let ?ms = "[(ascii (CHR ''B''), ?bb), (ascii (CHR ''P''), ?pb)]"
  have l: "length ?bb = length v + 12" "length ?pb = length q + 4"
    by (simp_all add: bind_body_def parse_body_def wire_simps)
  obtain x s' where x: "loaded s (wire_all ?ms) x" "wf_ctx x" "run_msgs x ?ms = Some s'"
    "pqwire_feed_input E s (Some (wire_all ?ms)) = Some (Some (length (wire_all ?ms), s'))"
    by (rule feed_msgs [OF assms(1,3), of ?ms]) (use l assms(8-10) in auto)
  note L = loadedD [OF x(1)]
  let ?b = "bind_event (body_ptr x 5) [] [] [] [Some v] []"
  have ro: "role x = PQWIRE_ROLE_SERVER" using L(1) assms(2) by simp
  have "handle_message x (ascii (CHR ''B'')) 5 ?bb = enqueue_event x (mk_event PQ_EVENT_BIND (PBind ?b))"
    by (rule handle_extended(2) [OF ro]) (use assms(5) in \<open>simp_all add: is_cstr_def limit_defs\<close>)
  from run_msgs_event [OF this x(2), of "[(ascii (CHR ''P''), ?pb)]"] L(15) obtain y where y:
    "run_msgs x ?ms = run_msgs y [(ascii (CHR ''P''), ?pb)]" "wf_ctx y" "same_place x y"
    "pending_input y = wire_all [(ascii (CHR ''P''), ?pb)]" "event_queue_size y = event_queue_size x"
    "ring_items y = keep_last (event_queue_size x) (ring_items x @ [mk_event PQ_EVENT_BIND (PBind ?b)])"
    "input_buf y = wire_all [(ascii (CHR ''P''), ?pb)] @ drop (length (wire_all [(ascii (CHR ''P''), ?pb)])) (input_buf x)"
    by blast
  have "role y = PQWIRE_ROLE_SERVER" using y(3) ro by (simp add: same_place_def)
  then have "handle_message y (ascii (CHR ''P'')) 5 ?pb = enqueue_event y (mk_event PQ_EVENT_PARSE (PParse (parse_event [] q [])))"
    by (rule handle_extended(1)) (use assms(6) in \<open>simp_all add: is_cstr_def\<close>)
  from run_msgs_event [OF this y(2), of "[]"] y(1,4) x(3) have z: "same_place y s'" "input_buf s' = input_buf y"
    "ring_items s' = keep_last (event_queue_size y) (ring_items y @ [mk_event PQ_EVENT_PARSE (PParse (parse_event [] q []))])"
    by auto
  have m: "mk_event PQ_EVENT_BIND (PBind ?b) \<in> set (ring_items s')"
    using z(3) y(5,6) keep_last_two [of "event_queue_size x"] L(3) assms(4) by (simp add: keep_last_snoc)
  have "drop 15 (wire_msg (ascii (CHR ''P'')) ?pb) = drop 10 ?pb"
    using drop_wire_msg [of 10 "ascii (CHR ''P'')" ?pb] by simp
  also have "\<dots> = drop 9 q @ drop (9 - length q) ([0] @ wr16_be 0)"
    by (simp add: parse_body_def wire_str_def wire_counted_def)
  finally have "mem_read (input_buf s') 15 (length v) = Some (take (length v) (drop 9 q))"
    using z(2) y(7) l assms(7) by (simp add: mem_read_def)
  then have "deref s' (pv_data (bi_params ?b ! 0)) (length v) = Some (take (length v) (drop 9 q))"
    using y(3) z(1) first_value_view(1) [of "body_ptr x 5" v "[]" "[]"]
    by (simp add: deref_def body_ptr_def same_place_def)
  with x(4) m l first_value_view(2) [of "body_ptr x 5" v "[]" "[]"] show ?thesis by (auto simp: add.commute)
qed

theorem pipelined_bind_clobbered_witness:
  "\<exists>s' b. pqwire_feed_input roomy_env started_server (Some (wire_msg (ascii (CHR ''B'')) (bind_body [] [] [] [Some [49, 50]] []) @
         wire_msg (ascii (CHR ''P'')) (parse_body [] (text_of ''DELETE FROM t'') []))) =
       Some (Some (length [49, 50 :: byte] + length (text_of ''DELETE FROM t'') + 26, s')) \<and>
     mk_event PQ_EVENT_BIND (PBind b) \<in> set (ring_items s') \<and>
     pv_length (bi_params b ! 0) = of_nat (length [49, 50 :: byte]) \<and>
     deref s' (pv_data (bi_params b ! 0)) (length [49, 50 :: byte]) =
       Some (take (length [49, 50 :: byte]) (drop 9 (text_of ''DELETE FROM t'')))"
  by (rule pipelined_bind_clobbered)
    (simp_all add: started_server_def is_cstr_def idle_def wf_ctx_same ctx_ok_def pending_input_def)

end
