(* ===== verification/Phase.thy ===== *)
theory Phase
  imports Stream_Feed
begin

text \<open>
  The protocol state machine. \<open>phase c\<close> is the pair of \<open>proto_state\<close> and \<open>auth_state\<close> of a
  context (\<open>src/src/pqwire.c\<close>, lines 17-32). The machine is labelled by the messages:
  \<open>labels\<close> cuts a byte stream into them, without a context, and \<open>phase_step\<close> says what each
  does to the phase, with one rule per assignment in the code (lines 349-351, 549, 690, 779,
  785) and one for the messages without any. The phase after a feed is shown to be the one
  the machine reaches on the messages of the stream.
\<close>

section \<open>The machine\<close>

definition phase :: "pqwire_ctx \<Rightarrow> protocol_state \<times> auth_state" where
  "phase c = (proto_state c, auth_state c)"

datatype label = Startup | Message byte bytes

text \<open>What one message does to the phase of a context in role \<open>r\<close>.\<close>

inductive phase_step ::
  "pqwire_role \<Rightarrow> label \<Rightarrow> protocol_state \<times> auth_state \<Rightarrow> protocol_state \<times> auth_state \<Rightarrow> bool" where
  startup: "phase_step PQWIRE_ROLE_SERVER Startup (p, a) (PROTO_STATE_AUTHENTICATING, a)"
| query: "phase_step PQWIRE_ROLE_SERVER (Message (ascii (CHR ''Q'')) body) (p, a) (PROTO_STATE_QUERYING, a)"
| ready: "phase_step PQWIRE_ROLE_CLIENT (Message (ascii (CHR ''Z'')) body) (p, a) (PROTO_STATE_READY, a)"
| complete: "phase_step PQWIRE_ROLE_CLIENT (Message (ascii (CHR ''C'')) body) (p, a) (PROTO_STATE_READY, a)"
| auth_ok: "rd32_be body 0 = Some 0 \<Longrightarrow>
    phase_step PQWIRE_ROLE_CLIENT (Message (ascii (CHR ''R'')) body) (p, a) (p, AUTH_STATE_DONE)"
| auth_other: "rd32_be body 0 \<noteq> Some 0 \<Longrightarrow>
    phase_step PQWIRE_ROLE_CLIENT (Message (ascii (CHR ''R'')) body) s s"
| frontend: "t \<noteq> ascii (CHR ''Q'') \<Longrightarrow> phase_step PQWIRE_ROLE_SERVER (Message t body) s s"
| backend: "t \<notin> {ascii (CHR ''Z''), ascii (CHR ''C''), ascii (CHR ''R'')} \<Longrightarrow>
    phase_step PQWIRE_ROLE_CLIENT (Message t body) s s"

inductive_cases phase_step_server: "phase_step PQWIRE_ROLE_SERVER l s s'"
inductive_cases phase_step_client: "phase_step PQWIRE_ROLE_CLIENT l s s'"

inductive phase_run ::
  "pqwire_role \<Rightarrow> label list \<Rightarrow> protocol_state \<times> auth_state \<Rightarrow> protocol_state \<times> auth_state \<Rightarrow> bool" for r where
  stop: "phase_run r [] s s"
| step: "phase_step r l s s' \<Longrightarrow> phase_run r ls s' s'' \<Longrightarrow> phase_run r (l # ls) s s''"

declare phase_run.stop [simp]

inductive_simps phase_run_simps: "phase_run r [] s s''" "phase_run r (l # ls) s s''"

lemma phase_run_single [simp]: "phase_run r [l] s s' \<longleftrightarrow> phase_step r l s s'"
  by (cases s') (auto simp: phase_run_simps)

lemma phase_run_append:
  "phase_run r ls s s' \<Longrightarrow> phase_run r ks s' s'' \<Longrightarrow> phase_run r (ls @ ks) s s''"
  by (induction rule: phase_run.induct) (auto intro: phase_run.step)

text \<open>Where a label leads is determined.\<close>

lemma phase_step_uniq:
  assumes "phase_step r l s s'" "phase_step r l s s''"
  shows "s' = s''"
  using assms(1)
proof cases
  case (startup p a)
  with assms(2) show ?thesis by (auto elim: phase_step_server)
next
  case (query body p a)
  with assms(2) show ?thesis by (auto elim: phase_step_server)
next
  case (ready body p a)
  with assms(2) show ?thesis by (auto elim: phase_step_client)
next
  case (complete body p a)
  with assms(2) show ?thesis by (auto elim: phase_step_client)
next
  case (auth_ok body p a)
  with assms(2) show ?thesis by (auto elim: phase_step_client)
next
  case (auth_other body)
  with assms(2) show ?thesis by (auto elim: phase_step_client)
next
  case (frontend t body)
  with assms(2) show ?thesis by (auto elim: phase_step_server)
next
  case (backend t body)
  with assms(2) show ?thesis by (auto elim: phase_step_client)
qed

lemma phase_run_uniq: "phase_run r ls s s' \<Longrightarrow> phase_run r ls s s'' \<Longrightarrow> s' = s''"
proof (induction arbitrary: s'' rule: phase_run.induct)
  case (stop s)
  then show ?case by (simp add: phase_run_simps)
next
  case (step l s s' ls t)
  obtain u where u: "phase_step r l s u" "phase_run r ls u s''"
    using step.prems by (auto simp: phase_run_simps)
  then have "u = s'" using phase_step_uniq [OF step.hyps(1)] by blast
  with step.IH u(2) show ?case by blast
qed

text \<open>
  The messages of a byte stream: \<open>seen\<close> is whether the StartupMessage has been received,
  \<open>limit\<close> the largest length field accepted. A length field out of range ends the stream
  before the StartupMessage; later the message is skipped, or the rest of the buffer
  discarded when it is not complete.
\<close>

function labels :: "pqwire_role \<Rightarrow> bool \<Rightarrow> nat \<Rightarrow> bytes \<Rightarrow> label list" where
  "labels r seen limit p =
     (if r = PQWIRE_ROLE_SERVER \<and> \<not> seen
      then case rd32_be p 0 of
             None \<Rightarrow> []
           | Some n \<Rightarrow>
               if unat n < 8 \<or> unat n > limit \<or> length p < unat n then []
               else Startup # labels r True limit (drop (unat n) p)
      else case rd32_be p 1 of
             None \<Rightarrow> []
           | Some n \<Rightarrow>
               if unat n < 4 \<or> unat n > limit
               then if n > 0 \<and> length p \<ge> unat n + 1 then labels r seen limit (drop (1 + unat n) p) else []
               else if length p < 1 + unat n then []
               else Message (hd p) (take (unat n - 4) (drop 5 p)) # labels r seen limit (drop (1 + unat n) p))"
  by pat_completeness auto
termination
  by (relation "measure (\<lambda>(r, seen, limit, p). length p)") (auto simp: word_gt_0 unat_eq_zero)

declare labels.simps [simp del]

section \<open>Every message follows the machine\<close>

named_theorems phase_simps

lemma phase_updates [phase_simps]:
  "phase (c\<lparr>user_scratch := s\<rparr>) = phase c" "phase (c\<lparr>db_scratch := s\<rparr>) = phase c"
  "phase (c\<lparr>sql_scratch := s\<rparr>) = phase c" "phase (c\<lparr>tag_scratch := s\<rparr>) = phase c"
  "phase (c\<lparr>col_scratch := x\<rparr>) = phase c" "phase (c\<lparr>col_name_scratch := y\<rparr>) = phase c"
  "phase (c\<lparr>row_arena := m, row_arena_used := n\<rparr>) = phase c" "phase (c\<lparr>startup_seen := b\<rparr>) = phase c"
  "phase (c\<lparr>proto_state := p\<rparr>) = (p, snd (phase c))" "phase (c\<lparr>auth_state := a\<rparr>) = (fst (phase c), a)"
  by (simp_all add: phase_def)

lemma enqueue_phase [phase_simps]: "enqueue_event c ev = Some d \<Longrightarrow> phase d = phase c"
  by (auto simp: enqueue_event_def phase_def Let_def bind_eq_Some_conv split: if_splits)

lemma row_desc_phase: "row_desc_cols body n i off c = Some (k, d) \<Longrightarrow> phase d = phase c"
proof (induction "n - i" arbitrary: i off c)
  case 0
  then show ?case by (subst (asm) row_desc_cols.simps) simp
next
  case (Suc j)
  then have j: "j = n - Suc i" by simp
  from Suc.prems show ?case
    by (subst (asm) row_desc_cols.simps)
      (auto simp: Let_def phase_simps dest!: Suc.hyps(1) [OF j] split: if_splits option.splits)
qed

lemma take_column_phase: "take_column body off need i r c = Some (r', d) \<Longrightarrow> phase d = phase c"
  by (auto simp: take_column_def bind_eq_Some_conv phase_simps split: if_splits)

lemma data_row_phase: "data_row_cols body n i off r c = Some (k, r', d) \<Longrightarrow> phase d = phase c"
proof (induction "n - i" arbitrary: i off r c)
  case 0
  then show ?case by (subst (asm) data_row_cols.simps) simp
next
  case (Suc j)
  then have j: "j = n - Suc i" by simp
  from Suc.prems show ?case
    by (subst (asm) data_row_cols.simps)
      (auto dest!: Suc.hyps(1) [OF j] take_column_phase split: if_splits option.splits)
qed

lemma startup_params_phase: "startup_params body off c = Some d \<Longrightarrow> phase d = phase c"
proof (induction "length body - off" arbitrary: off c rule: less_induct)
  case less
  have IH: "phase d = phase c'" if "startup_params body off' c' = Some d" "off < off'" "off < length body" for off' c'
    by (rule less.hyps [OF _ that(1)]) (use that(2,3) in simp)
  from less.prems show ?case
    by (subst (asm) startup_params.simps)
      (auto dest!: IH simp: phase_simps split: if_splits option.splits)
qed

lemmas phase_dests = row_desc_phase data_row_phase enqueue_phase

lemma quiet_parsers:
  "parse_parse_msg c body = Some d \<Longrightarrow> phase d = phase c"
  "parse_bind_msg c base body = Some d \<Longrightarrow> phase d = phase c"
  "parse_describe_msg c body = Some d \<Longrightarrow> phase d = phase c"
  "parse_execute_msg c body = Some d \<Longrightarrow> phase d = phase c"
  "parse_close_msg c body = Some d \<Longrightarrow> phase d = phase c"
  "parse_row_description c body = Some d \<Longrightarrow> phase d = phase c"
  "parse_data_row c body = Some d \<Longrightarrow> phase d = phase c"
  "parse_error_response c body = Some d \<Longrightarrow> phase d = phase c"
  "parse_notification_response c body = Some d \<Longrightarrow> phase d = phase c"
  by (auto simp: parse_parse_msg_def parse_bind_msg_def parse_describe_msg_def parse_execute_msg_def
      parse_close_msg_def parse_row_description_def parse_data_row_def parse_error_response_def
      parse_notification_response_def bind_eq_Some_conv Let_def dest!: phase_dests
      split: if_splits option.splits prod.splits)

lemma frontend_phase:
  assumes "handle_frontend c t base body = Some d"
  shows "phase_step PQWIRE_ROLE_SERVER (Message t body) (phase c) (phase d)"
proof (cases "t = ascii (CHR ''Q'')")
  case True
  then have "phase d = (PROTO_STATE_QUERYING, snd (phase c))"
    using assms
    by (auto simp: handle_frontend_def parse_query_msg_def bind_eq_Some_conv Let_def phase_simps dest!: enqueue_phase
        split: option.splits)
  then show ?thesis using True phase_step.query [of body "fst (phase c)" "snd (phase c)"] by simp
next
  case False
  then have "phase d = phase c"
    using assms by (auto simp: handle_frontend_def dest: enqueue_phase quiet_parsers split: if_splits)
  then show ?thesis using False phase_step.frontend by simp
qed

lemma backend_phase:
  assumes "handle_backend c t base body = Some d"
  shows "phase_step PQWIRE_ROLE_CLIENT (Message t body) (phase c) (phase d)"
proof -
  note steps = phase_step.ready [of body "fst (phase c)" "snd (phase c)"]
    phase_step.complete [of body "fst (phase c)" "snd (phase c)"]
    phase_step.auth_ok [of body "fst (phase c)" "snd (phase c)"] phase_step.auth_other [of body "phase c"]
  consider (z) "t = ascii (CHR ''Z'')" | (c) "t = ascii (CHR ''C'')" | (r) "t = ascii (CHR ''R'')"
    | (o) "t \<notin> {ascii (CHR ''Z''), ascii (CHR ''C''), ascii (CHR ''R'')}" by blast
  then show ?thesis
  proof cases
    case z
    then have "phase d = (PROTO_STATE_READY, snd (phase c))"
      using assms by (auto simp: handle_backend_def handle_ready_for_query_def bind_eq_Some_conv phase_simps dest!: enqueue_phase)
    then show ?thesis using z steps by simp
  next
    case c
    then have "phase d = (PROTO_STATE_READY, snd (phase c))"
      using assms by (auto simp: handle_backend_def parse_command_complete_def bind_eq_Some_conv Let_def phase_simps dest!: enqueue_phase)
    then show ?thesis using c steps by simp
  next
    case r
    then have "phase d = (if rd32_be body 0 = Some 0 then (fst (phase c), AUTH_STATE_DONE) else phase c)"
      using assms rd32_be_short [of body 0]
      by (auto simp: handle_backend_def handle_authentication_def bind_eq_Some_conv phase_simps
          dest!: enqueue_phase split: if_splits)
    then show ?thesis using r steps(3,4) by (auto split: if_splits)
  next
    case o
    then have "phase d = phase c"
      using assms by (auto simp: handle_backend_def dest: enqueue_phase quiet_parsers split: if_splits)
    then show ?thesis using o phase_step.backend by simp
  qed
qed

lemma handle_message_phase:
  "handle_message c t base body = Some d \<Longrightarrow> phase_step (role c) (Message t body) (phase c) (phase d)"
  using frontend_phase backend_phase by (cases "role c") (auto simp: handle_message_def)

section \<open>A whole feed follows the machine\<close>

text \<open>What feeding never changes.\<close>

definition settings ::
  "pqwire_ctx \<Rightarrow> u32 \<times> pqwire_role \<times> nat \<times> nat \<times> bytes \<times> nat \<times> nat \<times> bytes \<times> bool \<times> scram_sha256_ctx" where
  "settings c = (magic c, role c, event_queue_size c, max_message_size c, output_buf c, output_len c, output_cap c,
     password c, use_scram c, scram_ctx c)"

definition moved_by :: "pqwire_ctx \<Rightarrow> label list \<Rightarrow> pqwire_ctx \<Rightarrow> bool" where
  "moved_by c ls d \<longleftrightarrow> wf_ctx d \<and> settings d = settings c \<and> phase_run (role c) ls (phase c) (phase d) \<and>
     (role c = PQWIRE_ROLE_CLIENT \<longrightarrow> startup_seen d = startup_seen c)"

definition moved :: "pqwire_ctx \<Rightarrow> pqwire_ctx \<Rightarrow> bool" where
  "moved c d \<longleftrightarrow> (\<exists>ls. moved_by c ls d)"

lemma moved_byD:
  assumes "moved_by c ls d"
  shows "wf_ctx d" "settings d = settings c" "phase_run (role c) ls (phase c) (phase d)"
    "role c = PQWIRE_ROLE_CLIENT \<Longrightarrow> startup_seen d = startup_seen c"
    "role d = role c" "max_message_size d = max_message_size c"
  using assms by (auto simp: moved_by_def settings_def)

lemma movedD:
  assumes "moved c d"
  shows "wf_ctx d" "settings d = settings c" "\<exists>ls. phase_run (role c) ls (phase c) (phase d)"
    "role c = PQWIRE_ROLE_CLIENT \<Longrightarrow> startup_seen d = startup_seen c"
  using assms by (auto simp: moved_def moved_by_def)

lemma moved_by_refl: "wf_ctx c \<Longrightarrow> moved_by c [] c"
  by (simp add: moved_by_def)

lemma moved_by_trans: "moved_by a ls b \<Longrightarrow> moved_by b ks c \<Longrightarrow> moved_by a (ls @ ks) c"
  by (auto simp: moved_by_def settings_def intro: phase_run_append)

lemma settings_parse_frame: "parse_frame c d \<Longrightarrow> settings d = settings c"
  by (simp add: settings_def parse_frame_def)

lemma moved_message:
  assumes "wf_ctx c" "handle_message c t base body = Some d"
  shows "moved_by c [Message t body] d \<and> startup_seen d = startup_seen c"
proof -
  have d: "wf_ctx d" "parse_frame c d"
    using handle_message_safe [OF assms(1), of t base body] assms(2) by (auto simp: safe_step_def)
  have "startup_seen d = startup_seen c" using d(2) by (simp add: parse_frame_def)
  with d(1) settings_parse_frame [OF d(2)] handle_message_phase [OF assms(2)]
  show ?thesis by (simp add: moved_by_def)
qed

lemma moved_plain:
  assumes "wf_ctx c" "enqueue_event c (plain_event t) = Some d"
  shows "moved_by c [] d \<and> startup_seen d = startup_seen c"
proof -
  have d: "wf_ctx d" "parse_frame c d"
    using safe_enqueue [OF assms(1), of "plain_event t"] assms(2) by (auto simp: safe_step_def)
  then have "startup_seen d = startup_seen c" by (simp add: parse_frame_def)
  with d show ?thesis using enqueue_phase [OF assms(2)] by (simp add: moved_by_def settings_parse_frame)
qed

lemma moved_startup:
  assumes "wf_ctx c" "role c = PQWIRE_ROLE_SERVER" "4 \<le> length body" "parse_startup_body c body = Some d"
  shows "moved_by c [Startup] d \<and> startup_seen d"
proof -
  have d: "wf_ctx d" "parse_frame (c\<lparr>startup_seen := True\<rparr>) d"
    using parse_startup_body_safe [OF assms(1,3)] assms(4) by auto
  obtain x y where x: "startup_params body 4 (c\<lparr>user_scratch := [], db_scratch := []\<rparr>) = Some x"
    "enqueue_event x (mk_event PQ_EVENT_STARTUP (PStartup UserScratch DbScratch)) = Some y"
    "d = (if role y = PQWIRE_ROLE_SERVER then y\<lparr>startup_seen := True, proto_state := PROTO_STATE_AUTHENTICATING\<rparr>
          else y\<lparr>startup_seen := True\<rparr>)"
    using assms(4) by (auto simp: parse_startup_body_def Let_def bind_eq_Some_conv)
  have "phase y = phase c"
    using startup_params_phase [OF x(1)] enqueue_phase [OF x(2)] by (simp add: phase_def)
  moreover have "role y = PQWIRE_ROLE_SERVER"
    using d(2) x(3) assms(2) by (auto simp: parse_frame_def split: if_splits)
  ultimately have "phase d = (PROTO_STATE_AUTHENTICATING, snd (phase c))"
    using x(3) by (simp add: phase_def prod_eq_iff)
  moreover have "settings d = settings c"
    using settings_parse_frame [OF d(2)] by (simp add: settings_def)
  moreover have "startup_seen d" using d(2) by (simp add: parse_frame_def)
  ultimately show ?thesis
    using d(1) assms(2) phase_step.startup [of "fst (phase c)" "snd (phase c)"] by (simp add: moved_by_def)
qed

text \<open>The messages a context takes from a stream.\<close>

abbreviation ctx_labels :: "pqwire_ctx \<Rightarrow> bytes \<Rightarrow> label list" where
  "ctx_labels c \<equiv> labels (role c) (startup_seen c) (max_message_size c)"

lemma frame_startup_moved:
  assumes "wf_ctx c" "role c = PQWIRE_ROLE_SERVER" "\<not> startup_seen c" "frame_startup c p = Some (go, d, r)"
  shows "\<exists>ls. moved_by c ls d \<and> ctx_labels c p = ls @ (if go then ctx_labels d r else [])"
proof (cases "rd32_be p 0")
  case None
  then show ?thesis
    using assms moved_by_refl [OF assms(1)] by (auto simp: frame_startup_def labels.simps [of _ _ _ p] split: if_splits)
next
  case (Some n)
  then have len: "4 \<le> length p" using rd32_be_short [of p 0] by (cases "length p < 4") auto
  have l: "ctx_labels c p = (if unat n < 8 \<or> unat n > max_message_size c \<or> length p < unat n then []
      else Startup # labels (role c) True (max_message_size c) (drop (unat n) p))"
    using Some assms(2,3) by (subst labels.simps) simp
  consider (bad) "unat n < 8 \<or> unat n > max_message_size c"
    | (wait) "\<not> (unat n < 8 \<or> unat n > max_message_size c)" "length p < unat n"
    | (msg) "\<not> (unat n < 8 \<or> unat n > max_message_size c)" "unat n \<le> length p" by linarith
  then show ?thesis
  proof cases
    case bad
    then show ?thesis
      using l assms(4) len Some moved_plain [OF assms(1)] by (auto simp: frame_startup_def bind_eq_Some_conv)
  next
    case wait
    then show ?thesis
      using l assms(4) len Some moved_by_refl [OF assms(1)] by (auto simp: frame_startup_def)
  next
    case msg
    then have d: "parse_startup_body c (take (unat n - 4) (drop 4 p)) = Some d" "go" "r = drop (unat n) p"
      using assms(4) len Some by (auto simp: frame_startup_def bind_eq_Some_conv)
    have "moved_by c [Startup] d \<and> startup_seen d"
      by (rule moved_startup [OF assms(1,2) _ d(1)]) (use msg in auto)
    then show ?thesis using l d msg moved_byD(5,6) by (intro exI [of _ "[Startup]"]) auto
  qed
qed

lemma frame_typed_moved:
  assumes "wf_ctx c" "\<not> (role c = PQWIRE_ROLE_SERVER \<and> \<not> startup_seen c)" "frame_typed c p = Some (go, d, r)"
  shows "\<exists>ls. moved_by c ls d \<and> ctx_labels c p = ls @ (if go then ctx_labels d r else [])"
proof (cases "rd32_be p 1")
  case None
  then show ?thesis
    using assms moved_by_refl [OF assms(1)] by (auto simp: frame_typed_def labels.simps [of _ _ _ p] split: if_splits)
next
  case (Some n)
  then have len: "5 \<le> length p" using rd32_be_short [of p 1] by (cases "length p < 5") auto
  let ?body = "take (unat n - 4) (drop 5 p)" and ?L = "labels (role c) (startup_seen c) (max_message_size c)"
  have l: "ctx_labels c p = (if unat n < 4 \<or> unat n > max_message_size c
      then if n > 0 \<and> length p \<ge> unat n + 1 then ?L (drop (1 + unat n) p) else []
      else if length p < 1 + unat n then [] else Message (hd p) ?body # ?L (drop (1 + unat n) p))"
    using Some assms(2) by (subst labels.simps) auto
  have nil: "?L [] = []" by (subst labels.simps) (simp add: rd32_be_short)
  consider (bad) "unat n < 4 \<or> unat n > max_message_size c"
    | (wait) "\<not> (unat n < 4 \<or> unat n > max_message_size c)" "length p < 1 + unat n"
    | (msg) "\<not> (unat n < 4 \<or> unat n > max_message_size c)" "1 + unat n \<le> length p" by linarith
  then show ?thesis
  proof cases
    case bad
    then have d: "enqueue_event c (plain_event PQ_EVENT_PROTOCOL_ERROR) = Some d" "go"
      "r = (if n > 0 \<and> length p \<ge> unat n + 1 then drop (1 + unat n) p else [])"
      using assms(3) len Some by (auto simp: frame_typed_def bind_eq_Some_conv)
    then show ?thesis using l bad nil moved_plain [OF assms(1) d(1)] moved_byD(5,6) [of c "[]" d]
      by (intro exI [of _ "[]"]) auto
  next
    case wait
    then show ?thesis
      using l assms(3) len Some moved_by_refl [OF assms(1)] by (auto simp: frame_typed_def)
  next
    case msg
    then have d: "handle_message c (hd p) 5 ?body = Some d" "go" "r = drop (1 + unat n) p"
      using assms(3) len Some by (auto simp: frame_typed_def bind_eq_Some_conv)
    then show ?thesis using l msg moved_message [OF assms(1) d(1)] moved_byD(5,6)
      by (intro exI [of _ "[Message (hd p) ?body]"]) auto
  qed
qed

lemma frame_step_moved:
  assumes "wf_ctx c" "frame_step c p = Some (go, d, r)"
  shows "\<exists>ls. moved_by c ls d \<and> ctx_labels c p = ls @ (if go then ctx_labels d r else [])"
proof (cases "role c = PQWIRE_ROLE_SERVER \<and> \<not> startup_seen c")
  case True
  then have "frame_startup c p = Some (go, d, r)" using assms(2) by (simp add: frame_step_def)
  with True show ?thesis using frame_startup_moved [OF assms(1)] by blast
next
  case False
  then have "frame_typed c p = Some (go, d, r)" using assms(2) by (auto simp: frame_step_def)
  with False show ?thesis using frame_typed_moved [OF assms(1)] by blast
qed

lemma frame_run_moved: "wf_ctx c \<Longrightarrow> frame_run c p = Some (d, r) \<Longrightarrow> moved_by c (ctx_labels c p) d"
proof (induction c p rule: frame_run.induct)
  case (1 c p)
  from 1(3) obtain go e q where s: "frame_step c p = Some (go, e, q)"
    by (subst (asm) frame_run.simps) (auto split: option.splits)
  obtain ls where m: "moved_by c ls e" "ctx_labels c p = ls @ (if go then ctx_labels e q else [])"
    using frame_step_moved [OF 1(2) s] by blast
  show ?case
  proof (cases go)
    case True
    with 1(3) s have "frame_run e q = Some (d, r)" by (subst (asm) frame_run.simps) simp
    with 1(1) [OF s] True moved_byD(1) [OF m(1)] have "moved_by e (ctx_labels e q) d" by blast
    with m True show ?thesis by (auto intro: moved_by_trans)
  next
    case False
    with 1(3) s have "d = e" by (subst (asm) frame_run.simps) simp
    with m False show ?thesis by simp
  qed
qed

text \<open>A feed that is not refused makes the moves of the messages completed by it.\<close>

lemma feed_input_moved_by:
  assumes "wf_ctx c" "ctx_ok c" "input_len c + length d < 2 ^ 32"
  shows "\<exists>n c'. pqwire_feed_input E c (Some d) = Some (Some (n, c')) \<and>
     (n = length d \<and> moved_by c (ctx_labels c (pending_input c @ d)) c' \<or> n = 0 \<and> c' = c)"
proof (cases "reserve_input E c (length d)")
  case None
  then show ?thesis using feed_input_refused by simp
next
  case (Some c1)
  note r = reserve_input_ok [OF assms(1) Some]
  obtain c' where c': "pqwire_feed_input E c (Some d) = Some (Some (length d, c'))" "wf_ctx c'"
    "frame_run (core c1) (pending_input c @ d) = Some (core c', pending_input c')"
    using feed_input_runs [OF assms Some] by blast
  have "moved_by (core c1) (ctx_labels (core c1) (pending_input c @ d)) (core c')"
    using frame_run_moved [OF wf_core [OF r(1)] c'(3)] .
  then have "moved_by c (ctx_labels c (pending_input c @ d)) c'"
    unfolding r(6) using c'(2) by (simp add: moved_by_def core_def settings_def phase_def)
  with c'(1) show ?thesis by blast
qed

lemma feed_input_moved:
  assumes "wf_ctx c" "ctx_ok c" "input_len c + length d < 2 ^ 32"
  shows "\<exists>n c'. pqwire_feed_input E c (Some d) = Some (Some (n, c')) \<and> moved c c'"
  using feed_input_moved_by [OF assms, of E] moved_by_refl [OF assms(1)] unfolding moved_def by blast

text \<open>
  C6. The protocol state machine: the protocol and authentication states after a feed are the
  ones the labelled machine reaches on the messages that the new bytes complete, in order: a
  StartupMessage puts a server into AUTHENTICATING and a Query into QUERYING; ReadyForQuery and
  CommandComplete put a client into READY; an Authentication message with code 0, and no
  other, authenticates it; nothing else changes either state. Role, limits, credentials, SCRAM
  state and unsent output are not touched. A feed that is refused for lack of memory takes no
  bytes and changes nothing.
\<close>

theorem feed_follows_machine:
  assumes "wf_ctx c" "ctx_ok c" "input_len c + length d < 2 ^ 32"
  shows "\<exists>n c'. pqwire_feed_input E c (Some d) = Some (Some (n, c')) \<and>
     (n = length d \<and> settings c' = settings c \<and>
        phase_run (role c) (labels (role c) (startup_seen c) (max_message_size c) (pending_input c @ d))
          (phase c) (phase c') \<or>
      n = 0 \<and> c' = c)"
  using feed_input_moved_by [OF assms, of E] moved_byD(2,3) by blast

theorem feed_follows_machine_witness:
  "\<exists>n c'. pqwire_feed_input roomy_env (fresh_ctx PQWIRE_ROLE_CLIENT) (Some [82, 0, 0, 0, 8, 0, 0, 0, 5]) = Some (Some (n, c')) \<and>
     (n = length [82, 0, 0, 0, 8, 0, 0, 0, 5 :: byte] \<and> settings c' = settings (fresh_ctx PQWIRE_ROLE_CLIENT) \<and>
        phase_run PQWIRE_ROLE_CLIENT [Message 82 [0, 0, 0, 5]] (phase (fresh_ctx PQWIRE_ROLE_CLIENT)) (phase c') \<or>
      n = 0 \<and> c' = fresh_ctx PQWIRE_ROLE_CLIENT)"
proof -
  have "labels PQWIRE_ROLE_CLIENT seen 16777216 [82, 0, 0, 0, 8, 0, 0, 0, 5] = [Message 82 [0, 0, 0, 5]]" for seen
    by (simp add: labels.simps rd32_be_def peek_def)
  then show ?thesis
    using feed_follows_machine [of "fresh_ctx PQWIRE_ROLE_CLIENT" "[82, 0, 0, 0, 8, 0, 0, 0, 5]" roomy_env]
    by simp
qed

section \<open>The phases a context can be in\<close>

text \<open>
  A client is never QUERYING, AUTHENTICATING or in ERROR, and its SCRAM conversation never
  gets past the first message; a server never authenticates anyone.
\<close>

fun phase_ok :: "pqwire_role \<Rightarrow> protocol_state \<times> auth_state \<Rightarrow> bool" where
  "phase_ok PQWIRE_ROLE_CLIENT (p, a) \<longleftrightarrow>
     p \<in> {PROTO_STATE_STARTUP, PROTO_STATE_READY} \<and> a \<in> {AUTH_STATE_NONE, AUTH_STATE_CLIENT_FIRST, AUTH_STATE_DONE}"
| "phase_ok PQWIRE_ROLE_SERVER (p, a) \<longleftrightarrow>
     p \<in> {PROTO_STATE_STARTUP, PROTO_STATE_AUTHENTICATING, PROTO_STATE_READY, PROTO_STATE_QUERYING} \<and> a = AUTH_STATE_NONE"

lemma phase_step_ok: "phase_step r l s s' \<Longrightarrow> phase_ok r s \<Longrightarrow> phase_ok r s'"
  by (cases r) (auto elim!: phase_step_server phase_step_client)

lemma phase_run_ok: "phase_run r ls s s' \<Longrightarrow> phase_ok r s \<Longrightarrow> phase_ok r s'"
  by (induction rule: phase_run.induct) (auto intro: phase_step_ok)

end
