(* ===== verification/Machine.thy ===== *)
theory Machine
  imports Phase
begin

text \<open>
  The library as its callers see it: every public operation on one context as a call
  (\<open>send_call\<close> for the serialisers of \<open>src/src/pqwire.c\<close>, \<open>api_call\<close> for all of them), the
  conditions a caller has to meet, and the contexts reachable by calls. The invariant \<open>live\<close>
  is preserved by every call, and no call faults: progress and preservation for the whole
  interface, through the locale \<open>sound_machine\<close>.
\<close>

section \<open>The calls\<close>

datatype send_call =
    SendStartup "bytes option" "bytes option"
  | SendQuery "bytes option"
  | SendCall "bytes option"
  | SendTerminate
  | SendParse "bytes option" "bytes option" "u32 list option" u16
  | SendBind "bytes option" "bytes option" "u16 list option" u16 "u32 list option" "bytes option list option" u16
      "u16 list option" u16
  | SendDescribe byte "bytes option"
  | SendExecute "bytes option" u32
  | SendClose byte "bytes option"
  | SendSync
  | SendFlush
  | SendUnnamedPipeline "bytes option" "u32 list option" u16 "u16 list option" u16 "u32 list option"
      "bytes option list option" u16 "u16 list option" u16 u32
  | SendAuthOk
  | SendReadyForQuery
  | SendRowDescription "bytes pq_column_desc list option" nat
  | SendDataRow "bytes option" nat
  | SendDataRowMulti "u32 list option" "bytes option list option" u16
  | SendCommandComplete "bytes option"
  | SendErrorResponse "bytes option" "bytes option" "bytes option"
  | SendParseComplete
  | SendBindComplete
  | SendCloseComplete
  | SendNoData
  | SendBindParams "bytes option" "bytes option" "pqwire_param list option" u16 "u16 list option" u16
  | SendBindRewriteIdentity pqwire_ctx "pq_bind option" "bytes option" "bytes option" u16 "bytes option" bool

fun run_send :: "env \<Rightarrow> pqwire_ctx \<Rightarrow> send_call \<Rightarrow> (int \<times> pqwire_ctx) option" where
  "run_send E c (SendStartup user db) = pqwire_send_startup E c user db"
| "run_send E c (SendQuery sql) = pqwire_send_query E c sql"
| "run_send E c (SendCall p) = pqwire_send_call E c p"
| "run_send E c SendTerminate = pqwire_send_terminate E c"
| "run_send E c (SendParse st q oids n) = pqwire_send_parse E c st q oids n"
| "run_send E c (SendBind portal st fmts nf lens vals np rfmts nr) =
     pqwire_send_bind E c portal st fmts nf lens vals np rfmts nr"
| "run_send E c (SendDescribe t name) = pqwire_send_describe E c t name"
| "run_send E c (SendExecute portal m) = pqwire_send_execute E c portal m"
| "run_send E c (SendClose t name) = pqwire_send_close E c t name"
| "run_send E c SendSync = pqwire_send_sync E c"
| "run_send E c SendFlush = pqwire_send_flush E c"
| "run_send E c (SendUnnamedPipeline q oids no fmts nf lens vals np rfmts nr m) =
     pqwire_send_unnamed_pipeline E c q oids no fmts nf lens vals np rfmts nr m"
| "run_send E c SendAuthOk = pqwire_send_auth_ok E c"
| "run_send E c SendReadyForQuery = pqwire_send_ready_for_query E c"
| "run_send E c (SendRowDescription cols n) = pqwire_send_row_description E c cols n"
| "run_send E c (SendDataRow d n) = pqwire_send_data_row E c d n"
| "run_send E c (SendDataRowMulti lens vals n) = pqwire_send_data_row_multi E c lens vals n"
| "run_send E c (SendCommandComplete tag) = pqwire_send_command_complete E c tag"
| "run_send E c (SendErrorResponse sev st msg) = pqwire_send_error_response E c sev st msg"
| "run_send E c SendParseComplete = pqwire_send_parse_complete E c"
| "run_send E c SendBindComplete = pqwire_send_bind_complete E c"
| "run_send E c SendCloseComplete = pqwire_send_close_complete E c"
| "run_send E c SendNoData = pqwire_send_no_data E c"
| "run_send E c (SendBindParams portal st ps n rfmts nr) = pqwire_send_bind_params E c portal st ps n rfmts nr"
| "run_send E c (SendBindRewriteIdentity src b portal st slot identity bin) =
     pqwire_send_bind_rewrite_identity E c src b portal st slot identity bin"

text \<open>
  What the caller has to guarantee: arrays are as long as their counts say and values as
  long as their lengths, the pointers of a Bind event still read, and the user name of a
  StartupMessage is not of the lengths for which \<open>pqwire_send_startup\<close> overruns its buffer.
\<close>

definition described :: "u32 list option \<Rightarrow> bytes option list option \<Rightarrow> u16 \<Rightarrow> bool" where
  "described lens vals n \<longleftrightarrow> (\<exists>vs. value_args (unat n) lens vals vs)"

fun send_ok :: "send_call \<Rightarrow> bool" where
  "send_ok (SendStartup user db) \<longleftrightarrow> \<not> (490 \<le> length (c_str user) \<and> length (c_str user) \<le> 497)"
| "send_ok (SendParse st q oids n) \<longleftrightarrow> holds (unat n) oids"
| "send_ok (SendBind portal st fmts nf lens vals np rfmts nr) \<longleftrightarrow>
     holds (unat nf) fmts \<and> described lens vals np \<and> holds (unat nr) rfmts"
| "send_ok (SendUnnamedPipeline q oids no fmts nf lens vals np rfmts nr m) \<longleftrightarrow>
     holds (unat no) oids \<and> holds (unat nf) fmts \<and> described lens vals np \<and> holds (unat nr) rfmts"
| "send_ok (SendRowDescription cols n) \<longleftrightarrow> holds (min n PQWIRE_MAX_ROW_COLUMNS) cols"
| "send_ok (SendDataRow d n) \<longleftrightarrow> holds n d"
| "send_ok (SendDataRowMulti lens vals n) \<longleftrightarrow> described lens vals n"
| "send_ok (SendBindParams portal st ps n rfmts nr) \<longleftrightarrow>
     holds (unat n) ps \<and> holds (unat nr) rfmts \<and>
     (\<forall>qs. ps = Some qs \<longrightarrow> described (Some (map p_length qs)) (Some (map p_data qs)) n)"
| "send_ok (SendBindRewriteIdentity src b portal st slot identity bin) \<longleftrightarrow>
     (\<forall>b'. b = Some b' \<longrightarrow> wf_bind b' \<and>
        (\<exists>vs. reads_values src b' vs \<and> (\<forall>v \<in> set vs. length (c_str v) < 2 ^ 31)))"
| "send_ok _ \<longleftrightarrow> True"

section \<open>The contract of the serialisers\<close>

text \<open>
  A serialiser returns, and has changed nothing but the output buffer (and, for
  ReadyForQuery, the protocol state).
\<close>

definition sent :: "pqwire_ctx \<Rightarrow> (int \<times> pqwire_ctx) option \<Rightarrow> bool" where
  "sent c r \<longleftrightarrow> (\<exists>rc c'. r = Some (rc, c') \<and> wf_output c' \<and>
     (output_frame c c' \<or> output_frame (c\<lparr>proto_state := PROTO_STATE_READY\<rparr>) c'))"

definition quiet :: "pqwire_ctx \<Rightarrow> (int \<times> pqwire_ctx) option \<Rightarrow> bool" where
  "quiet c r \<longleftrightarrow> (\<exists>rc c'. r = Some (rc, c') \<and> wf_output c' \<and> output_frame c c')"

lemma quiet_sent: "quiet c r \<Longrightarrow> sent c r"
  by (auto simp: quiet_def sent_def)

lemma quiet_refused [simp]: "wf_output c \<Longrightarrow> quiet c (Some (rc, c))"
  by (simp add: quiet_def)

lemma quiet_sends: "sends E c r bs \<Longrightarrow> quiet c r"
  by (auto simp: sends_def quiet_def)

lemma quiet_emit [simp]: "wf_output c \<Longrightarrow> quiet c (emit_msg E c t p)"
  using emit_msg_sends quiet_sends by blast

lemma quiet_then:
  assumes "quiet c m" "\<And>c'. wf_output c' \<Longrightarrow> output_frame c c' \<Longrightarrow> quiet c' (f c')"
  shows "quiet c (and_then m f)"
proof -
  obtain rc c' where c': "m = Some (rc, c')" "wf_output c'" "output_frame c c'"
    using assms(1) by (auto simp: quiet_def)
  with assms(2) [OF c'(2,3)] show ?thesis
    by (auto simp: and_then_def quiet_def intro: output_frame_trans)
qed

lemma quiet_ctx: "\<not> ctx_ok c \<Longrightarrow> output_frame c c' \<Longrightarrow> \<not> ctx_ok c'"
  by (simp add: ctx_ok_def output_frameD)

lemma quiet_if: "(if b then sends E c r bs else r = Some (rc, c)) \<Longrightarrow> wf_output c \<Longrightarrow> quiet c r"
  by (auto split: if_splits intro: quiet_sends)

lemma quiet_empty: "wf_output c \<Longrightarrow> quiet c (emit_empty E c t)"
  by (simp add: emit_empty_def)

lemma quiet_query: "wf_output c \<Longrightarrow> quiet c (pqwire_send_query E c sql)"
  by (simp add: pqwire_send_query_def split: option.split)

lemma quiet_parse:
  assumes "wf_output c" "holds (unat n) oids"
  shows "quiet c (pqwire_send_parse E c st q oids n)"
proof (cases "ctx_ok c \<and> q \<noteq> None")
  case True
  then show ?thesis using quiet_if [OF send_parse_sends [OF assms(1) _ assms(2)] assms(1)] by auto
qed (use assms(1) in \<open>auto simp: pqwire_send_parse_def split: option.split\<close>)

lemma quiet_bind:
  assumes "wf_output c" "holds (unat nf) fmts" "described lens vals np" "holds (unat nr) rfmts"
  shows "quiet c (pqwire_send_bind E c portal st fmts nf lens vals np rfmts nr)"
proof -
  obtain vs where "value_args (unat np) lens vals vs" using assms(3) by (auto simp: described_def)
  from send_bind_safe [OF assms(1,2) this assms(4), of E portal st] show ?thesis by (auto simp: quiet_def)
qed

lemma quiet_target: "wf_output c \<Longrightarrow> quiet c (send_target_name E c t target name)"
  using quiet_if [OF send_target_sends] by (cases "ctx_ok c") (auto simp: send_target_name_def)

lemma quiet_execute: "wf_output c \<Longrightarrow> quiet c (pqwire_send_execute E c portal m)"
  using quiet_if [OF send_execute_sends] by (cases "ctx_ok c") (auto simp: pqwire_send_execute_def)

lemma quiet_row_description:
  assumes "wf_output c" "holds (min n PQWIRE_MAX_ROW_COLUMNS) cols"
  shows "quiet c (pqwire_send_row_description E c cols n)"
proof (cases "ctx_ok c \<and> cols \<noteq> None")
  case True
  then show ?thesis using quiet_if [OF send_row_description_sends [OF assms(1)] assms(1)] assms(2) by auto
qed (use assms(1) in \<open>auto simp: pqwire_send_row_description_def split: option.split\<close>)

lemma quiet_data_row:
  assumes "wf_output c" "holds n d"
  shows "quiet c (pqwire_send_data_row E c d n)"
proof (cases "ctx_ok c")
  case True
  then show ?thesis using quiet_if [OF send_data_row_sends [OF assms(1), of d n] assms(1)] assms(2) by (auto simp: holds_def)
qed (use assms(1) in \<open>simp add: pqwire_send_data_row_def\<close>)

lemma row_values_safe:
  assumes "value_args n lens vals vs" "length acc \<le> cap"
  shows "row_values E lens vals i n acc cap \<noteq> None"
  using assms(2)
proof (induction "n - i" arbitrary: i acc cap)
  case 0
  then show ?case by (subst row_values.simps) simp
next
  case (Suc k)
  then have i: "i < n" "k = n - Suc i" by simp_all
  note d = value_argsD [OF assms(1) i(1)]
  let ?v = "vs ! i" and ?acc = "acc @ wr32_be (value_length (vs ! i))"
  note IH = Suc.hyps(1) [OF i(2)]
  show ?case
  proof (cases "length acc + 4 > cap \<or> c_str ?v = []")
    case True
    then show ?thesis using i d(1,2) IH [of ?acc cap] by (subst row_values.simps) auto
  next
    case ne: False
    then obtain b where b: "arg_at None vals i = Some (Some b)"
      "mem_read b 0 (unat (value_length ?v)) = Some (c_str ?v)" using d(3) by blast
    then have l: "unat (value_length ?v) = length (c_str ?v)" using mem_read_SomeD by fastforce
    show ?thesis
    proof (cases "grow_cap E cap (length ?acc) (length (c_str ?v))")
      case None
      then show ?thesis using ne i d(1,2) l b by (subst row_values.simps) simp
    next
      case (Some cap')
      then have "length (?acc @ c_str ?v) \<le> cap'" by (auto simp: grow_cap_def split: if_splits)
      with IH [of "?acc @ c_str ?v" cap'] Some ne i d(1,2) l b show ?thesis
        by (subst row_values.simps) simp
    qed
  qed
qed

lemma quiet_data_row_multi:
  assumes "wf_output c" "described lens vals n"
  shows "quiet c (pqwire_send_data_row_multi E c lens vals n)"
proof -
  obtain vs where "value_args (unat n) lens vals vs" using assms(2) by (auto simp: described_def)
  from row_values_safe [OF this, of "wr16_be n" "64 + unat n * 256" E 0]
  obtain r where "row_values E lens vals 0 (unat n) (wr16_be n) (64 + unat n * 256) = Some r" by auto
  then show ?thesis using assms(1) by (auto simp: pqwire_send_data_row_multi_def Let_def split: option.split)
qed

lemma quiet_error_response:
  assumes "wf_output c"
  shows "quiet c (pqwire_send_error_response E c sev st msg)"
  using assms
  by (auto simp: pqwire_send_error_response_def Let_def put_fields_exact simp del: put_fields.simps split: option.split)

lemma quiet_startup:
  assumes "wf_output c" "\<not> (490 \<le> length (c_str user) \<and> length (c_str user) \<le> 497)"
  shows "quiet c (pqwire_send_startup E c user db)"
proof (cases "ctx_ok c \<and> role c = PQWIRE_ROLE_CLIENT")
  case True
  with send_startup_cases [OF assms(1), where E = E and user = user and db = db] assms(1,2) show ?thesis
    by (auto split: if_splits intro: quiet_sends)
qed (use assms(1) in \<open>auto simp: pqwire_send_startup_def\<close>)

lemma quiet_unnamed_pipeline:
  assumes "wf_output c" "holds (unat no) oids" "holds (unat nf) fmts" "described lens vals np" "holds (unat nr) rfmts"
  shows "quiet c (pqwire_send_unnamed_pipeline E c q oids no fmts nf lens vals np rfmts nr m)"
  unfolding pqwire_send_unnamed_pipeline_def pqwire_send_sync_def
  by (intro quiet_then quiet_parse quiet_bind quiet_execute quiet_empty assms)

lemma described_take:
  assumes "described (Some (map f qs)) (Some (map g qs)) n" "unat n \<le> length qs"
  shows "described (Some (map f (take (unat n) qs))) (Some (map g (take (unat n) qs))) n"
proof -
  obtain vs where vs: "value_args (unat n) (Some (map f qs)) (Some (map g qs)) vs"
    using assms(1) by (auto simp: described_def)
  have "arg_at (- 1) (Some (map f (take (unat n) qs))) i = arg_at (- 1) (Some (map f qs)) i"
    "arg_at None (Some (map g (take (unat n) qs))) i = arg_at None (Some (map g qs)) i" if "i < unat n" for i
    using that assms(2) by (simp_all add: arg_at_def peek_def)
  with vs have "value_args (unat n) (Some (map f (take (unat n) qs))) (Some (map g (take (unat n) qs))) vs"
    by (simp add: value_args_def)
  then show ?thesis by (auto simp: described_def)
qed

lemma described_none: "described lens vals 0"
  by (auto simp: described_def value_args_def)

lemma quiet_bind_params:
  assumes "wf_output c" "send_ok (SendBindParams portal st ps n rfmts nr)"
  shows "quiet c (pqwire_send_bind_params E c portal st ps n rfmts nr)"
proof -
  have r: "holds (unat nr) rfmts" using assms(2) by simp
  consider (bad) "ps = None \<and> n > 0 \<or> unat n > PQWIRE_MAX_BIND_PARAMS" | (none) "n = 0"
    | (some) qs where "n > 0" "ps = Some qs" "unat n \<le> PQWIRE_MAX_BIND_PARAMS"
    by (cases "n = 0"; cases ps; cases "unat n \<le> PQWIRE_MAX_BIND_PARAMS") (auto simp: word_gt_0)
  then show ?thesis
  proof cases
    case bad
    then show ?thesis using assms(1) by (auto simp: pqwire_send_bind_params_def)
  next
    case none
    then show ?thesis using quiet_bind [OF assms(1) _ described_none r] by (simp add: pqwire_send_bind_params_def)
  next
    case some
    then have q: "unat n \<le> length qs" "described (Some (map p_length qs)) (Some (map p_data qs)) n" using assms(2) by simp_all
    have "holds (unat n) (Some (map p_format (take (unat n) qs)))" using q(1) by simp
    from quiet_bind [OF assms(1) this described_take [OF q(2,1)] r] some q(1) show ?thesis
      by (simp add: pqwire_send_bind_params_def mem_read_def)
  qed
qed

lemma quiet_rewrite:
  assumes "wf_output c" "send_ok (SendBindRewriteIdentity src b portal st slot identity bin)"
  shows "quiet c (pqwire_send_bind_rewrite_identity E c src b portal st slot identity bin)"
proof (cases "b = None \<or> identity = None")
  case True
  then show ?thesis using assms(1)
    by (auto simp: pqwire_send_bind_rewrite_identity_def pqwire_bind_rewrite_identity_zerocopy_def split: option.split)
next
  case False
  then obtain b' i where b: "b = Some b'" "identity = Some i" by auto
  show ?thesis
  proof (cases "unat slot < bi_n_params b'")
    case True
    obtain vs where vs: "wf_bind b'" "reads_values src b' vs" "\<forall>v \<in> set vs. length (c_str v) < 2 ^ 31"
      using assms(2) b by auto
    show ?thesis
      using assms(1) b zerocopy_exact [OF vs True] quiet_sends [OF append_output_sends [OF assms(1)]]
      by (simp add: pqwire_send_bind_rewrite_identity_def)
  next
    case no: False
    then show ?thesis using assms(1) b
      by (simp add: pqwire_send_bind_rewrite_identity_def pqwire_bind_rewrite_identity_zerocopy_def)
  qed
qed

lemmas quiet_rules =
  quiet_empty quiet_query quiet_parse quiet_bind quiet_target quiet_execute quiet_row_description quiet_data_row
  quiet_data_row_multi quiet_error_response quiet_startup quiet_unnamed_pipeline quiet_bind_params quiet_rewrite

lemma run_send_sent:
  assumes "wf_output c" "send_ok call"
  shows "sent c (run_send E c call)"
proof (cases "call = SendReadyForQuery")
  case True
  let ?c = "c\<lparr>proto_state := PROTO_STATE_READY\<rparr>"
  have "wf_output ?c" using assms(1) by (simp add: wf_output_def)
  from emit_msg_sends [OF this, of E "ascii (CHR ''Z'')" "[ascii (CHR ''I'')]"]
  show ?thesis using True assms(1)
    by (auto simp: sent_def sends_def pqwire_send_ready_for_query_def)
next
  case False
  then have "quiet c (run_send E c call)"
    using assms
    by (cases call)
      (auto simp: pqwire_send_terminate_def pqwire_send_sync_def pqwire_send_flush_def pqwire_send_parse_complete_def
        pqwire_send_bind_complete_def pqwire_send_close_complete_def pqwire_send_no_data_def pqwire_send_describe_def
        pqwire_send_close_def pqwire_send_auth_ok_def pqwire_send_call_def pqwire_send_command_complete_def
        simp del: send_ok.simps(9,10) intro!: quiet_rules split: option.split prod.split)
  then show ?thesis by (rule quiet_sent)
qed

section \<open>The context as a machine\<close>

datatype api_call =
    Feed "bytes option"
  | NextEvent
  | GetOutput "nat option"
  | Reset
  | NoteReady
  | StartAuth
  | Send send_call
  | PipelineFeed pqwire_pipeline_status "bytes option"

text \<open>The context after a call: \<open>None\<close> when the call does not return, \<open>Some None\<close> when it faults.\<close>

fun api_step :: "env \<Rightarrow> pqwire_ctx \<Rightarrow> api_call \<Rightarrow> pqwire_ctx option option" where
  "api_step E c (Feed d) = map_option (map_option snd) (pqwire_feed_input E c d)"
| "api_step E c NextEvent = Some (map_option snd (pqwire_next_event c))"
| "api_step E c (GetOutput n) = Some (map_option snd (pqwire_get_output c n))"
| "api_step E c Reset = Some (Some (pqwire_reset c))"
| "api_step E c NoteReady = Some (Some (pqwire_note_ready c))"
| "api_step E c StartAuth = Some (map_option snd (pqwire_start_auth E c))"
| "api_step E c (Send s) = Some (map_option snd (run_send E c s))"
| "api_step E c (PipelineFeed st m) =
     map_option (map_option (\<lambda>(rc, c, st). c)) (pqwire_pipeline_feed_backend_msg E c st m)"

text \<open>The caller keeps the input buffer under 4 GiB and meets the conditions of the serialisers.\<close>

fun call_ok :: "pqwire_ctx \<Rightarrow> api_call \<Rightarrow> bool" where
  "call_ok c (Feed d) \<longleftrightarrow> input_len c + length (c_str d) < 2 ^ 32"
| "call_ok c (Send s) \<longleftrightarrow> send_ok s"
| "call_ok c (PipelineFeed st m) \<longleftrightarrow> input_len c + length (c_str m) < 2 ^ 32"
| "call_ok c _ \<longleftrightarrow> True"

definition created :: "pqwire_ctx \<Rightarrow> bool" where
  "created c \<longleftrightarrow> (\<exists>E r cfg. pqwire_create_with_config E r cfg = Some c)"

definition live :: "pqwire_ctx \<Rightarrow> bool" where
  "live c \<longleftrightarrow> wf_ctx c \<and> ctx_ok c \<and> phase_ok (role c) (phase c) \<and>
     (role c = PQWIRE_ROLE_CLIENT \<longrightarrow> \<not> startup_seen c)"

lemma liveD: "live c \<Longrightarrow> wf_ctx c" "live c \<Longrightarrow> ctx_ok c" "live c \<Longrightarrow> wf_output c"
  by (auto simp: live_def)

text \<open>Contexts in the same role and phase.\<close>

definition same_phase :: "pqwire_ctx \<Rightarrow> pqwire_ctx \<Rightarrow> bool" where
  "same_phase c c' \<longleftrightarrow> magic c' = magic c \<and> role c' = role c \<and> phase c' = phase c \<and> startup_seen c' = startup_seen c"

lemma live_same: "live c \<Longrightarrow> wf_ctx c' \<Longrightarrow> same_phase c c' \<Longrightarrow> live c'"
  by (auto simp: live_def same_phase_def ctx_ok_def)

lemma live_moved:
  assumes "live c" "moved c c'"
  shows "live c'"
proof -
  have "role c' = role c" "magic c' = magic c" using movedD(2) [OF assms(2)] by (simp_all add: settings_def)
  with assms(1) movedD [OF assms(2)] phase_run_ok [of "role c" _ "phase c" "phase c'"] show ?thesis
    by (auto simp: live_def ctx_ok_def)
qed

lemma phase_ok_ready: "phase_ok r (p, a) \<Longrightarrow> phase_ok r (PROTO_STATE_READY, a)"
  by (cases r) auto

lemma live_ready: "live c \<Longrightarrow> live (c\<lparr>proto_state := PROTO_STATE_READY\<rparr>)"
  by (auto simp: live_def wf_ctx_same ctx_ok_def phase_def intro: phase_ok_ready)

lemma live_output:
  assumes "live c" "output_frame c c'" "wf_output c'"
  shows "live c'"
  by (rule live_same [OF assms(1) output_frame_wf [OF liveD(1) [OF assms(1)] assms(2,3)]])
    (simp add: same_phase_def phase_def output_frameD [OF assms(2)])

section \<open>Every call keeps a live context alive\<close>

lemma live_created:
  assumes "created c"
  shows "live c"
proof -
  obtain E r cfg where "pqwire_create_with_config E r cfg = Some c" using assms by (auto simp: created_def)
  note w = create_wf [OF this]
  show ?thesis by (cases r) (simp_all add: live_def phase_def w)
qed

lemma live_sent:
  assumes "live c" "sent c r"
  shows "\<exists>rc c'. r = Some (rc, c') \<and> live c'"
  using assms live_output live_ready unfolding sent_def by blast

lemma live_drained: "live c \<Longrightarrow> drain_frame c c' \<Longrightarrow> wf_ctx c' \<Longrightarrow> live c'"
  by (erule live_same) (auto simp: same_phase_def phase_def drain_frameD)

lemma live_next_event:
  assumes "live c"
  shows "\<exists>ev c'. pqwire_next_event c = Some (ev, c') \<and> live c'"
proof (cases "event_count c = 0")
  case True
  then show ?thesis using assms liveD(2) [OF assms] by (simp add: pqwire_next_event_def dequeue_event_none)
next
  case False
  obtain ev c' where "dequeue_event c = Some (Some ev, c')" "wf_ctx c'" "drain_frame c c'"
    using dequeue_wf [OF liveD(1) [OF assms]] False by auto
  then show ?thesis using assms liveD(2) [OF assms] live_drained by (auto simp: pqwire_next_event_def)
qed

lemma live_get_output:
  assumes "live c"
  shows "\<exists>out c'. pqwire_get_output c n = Some (out, c') \<and> live c'"
proof (cases n)
  case None
  then show ?thesis using assms by (simp add: pqwire_get_output_def)
next
  case (Some k)
  obtain c' where "pqwire_get_output c (Some k) = Some (take k (output_bytes c), c')" "wf_output c'" "output_frame c c'"
    using get_output_ok [OF liveD(3) [OF assms], of k] by blast
  then show ?thesis using Some live_output [OF assms] by blast
qed

lemma client_first_fits:
  assumes "scram_sha256_client_first s 256 = (rc, first)" "rc = 0"
  shows "length first < 256"
  using assms by (auto simp: scram_sha256_client_first_def snprintf_def Let_def split: if_splits)

lemma live_start_auth:
  assumes "live c"
  shows "\<exists>rc c'. pqwire_start_auth E c = Some (rc, c') \<and> live c'"
proof (cases "ctx_ok c \<and> auth_state c = AUTH_STATE_NONE \<and> role c = PQWIRE_ROLE_CLIENT \<and> use_scram c \<and> password c \<noteq> []")
  case True
  let ?c = "c\<lparr>scram_ctx := scram_sha256_init (rand_vals E), auth_state := AUTH_STATE_CLIENT_FIRST\<rparr>"
  obtain rc first where f: "scram_sha256_client_first (scram_sha256_init (rand_vals E)) 256 = (rc, first)" by force
  have "wf_ctx ?c" using liveD(1) [OF assms] by (simp add: wf_defs ring_items_def)
  then have l: "live ?c" using assms True by (auto simp: live_def ctx_ok_def phase_def)
  show ?thesis
  proof (cases "rc = 0")
    case r: True
    let ?b = "ascii (CHR ''p'') # wr32_be (of_nat (4 + length first + 1)) @ first @ [0]"
    have "pqwire_start_auth E c = Option.bind (append_output E ?c ?b) (\<lambda>c. Some (0, c))"
      using True f r client_first_fits [OF f r] by (simp add: pqwire_start_auth_def Let_def)
    moreover have "quiet ?c (Option.bind (append_output E ?c ?b) (\<lambda>c. Some (0, c)))"
      by (rule quiet_sends [OF append_output_sends [OF liveD(3) [OF l]]])
    ultimately show ?thesis using live_sent [OF l quiet_sent] by simp
  qed (use True f l in \<open>simp add: pqwire_start_auth_def Let_def\<close>)
qed (use assms in \<open>auto simp: pqwire_start_auth_def\<close>)

lemma live_feed:
  assumes "live c" "input_len c + length (c_str d) < 2 ^ 32"
  shows "\<exists>n c'. pqwire_feed_input E c d = Some (Some (n, c')) \<and> live c'"
proof (cases d)
  case None
  then show ?thesis using assms by (simp add: pqwire_feed_input_def)
next
  case (Some bs)
  then show ?thesis
    using feed_input_moved [of c bs E] assms live_moved liveD by (auto simp: c_str_def)
qed

lemma live_reset: "live c \<Longrightarrow> live (pqwire_reset c)"
  using reset_wf(1) [of c]
  by (cases "role c") (auto simp: live_def pqwire_reset_def ctx_ok_def phase_def)

lemma observe_safe: "pqwire_pipeline_observe_msg st (Some m) \<noteq> None"
proof (cases "length m < 5")
  case True
  then show ?thesis by (simp add: pqwire_pipeline_observe_msg_def pqwire_msg_peek_def)
next
  case False
  then obtain n where n: "rd32_be m 1 = Some n" using be32.dec_defined [of 1 m] by auto
  obtain e where e: "error_loop (drop 5 m) 0 zero_error = Some e" using error_loop_safe [of zero_error 0 "drop 5 m"] by auto
  show ?thesis
    using False n e
    by (auto simp: pqwire_pipeline_observe_msg_def pqwire_msg_peek_def Let_def parse_error_fields_def peek_def
        mem_read_def)
qed

lemma live_pipeline_feed:
  assumes "live c" "input_len c + length (c_str m) < 2 ^ 32"
  shows "\<exists>rc c' st'. pqwire_pipeline_feed_backend_msg E c st m = Some (Some (rc, c', st')) \<and> live c'"
proof (cases "m = None \<or> m = Some []")
  case True
  then show ?thesis using assms by (auto simp: pqwire_pipeline_feed_backend_msg_def)
next
  case False
  then obtain bs where m: "m = Some bs" by auto
  obtain rfq st' where o: "pqwire_pipeline_observe_msg st m = Some (rfq, st')" using observe_safe [of st bs] m by auto
  obtain n c1 where c1: "pqwire_feed_input E c m = Some (Some (n, c1))" "live c1" using live_feed [OF assms] by blast
  obtain c2 where c2: "drain_events c1 = Some c2" "wf_ctx c2" "drain_frame c1 c2"
    using drain_events_ok [OF liveD(1,2) [OF c1(2)]] by blast
  have l: "live c2" by (rule live_drained [OF c1(2) c2(3,2)])
  then have "live (pqwire_note_ready c2)" using live_ready [OF l] by (simp add: pqwire_note_ready_def)
  with False liveD(2) [OF assms(1)] o c1(1) c2(1) l assms(1) show ?thesis
    by (simp add: pqwire_pipeline_feed_backend_msg_def)
qed

lemma api_step_live:
  assumes "live c" "call_ok c a"
  shows "\<exists>c'. api_step E c a = Some (Some c') \<and> live c'"
proof (cases a)
  case (Feed d)
  then show ?thesis using live_feed [OF assms(1), of d E] assms(2) by auto
next
  case NextEvent
  then show ?thesis using live_next_event [OF assms(1)] by auto
next
  case (GetOutput n)
  then show ?thesis using live_get_output [OF assms(1), of n] by auto
next
  case StartAuth
  then show ?thesis using live_start_auth [OF assms(1), of E] by auto
next
  case (Send s)
  then show ?thesis using live_sent [OF assms(1) run_send_sent [OF liveD(3) [OF assms(1)]], of s E] assms(2) by auto
next
  case (PipelineFeed st m)
  then show ?thesis using live_pipeline_feed [OF assms(1), of m E st] assms(2) by auto
qed (use assms(1) live_reset live_ready in \<open>auto simp: pqwire_note_ready_def\<close>)

section \<open>Reachable states\<close>

text \<open>
  States reached from \<open>start\<close> by calls whose condition \<open>pre\<close> holds, each in an environment of
  its own.
\<close>

inductive reachable_by ::
  "('s \<Rightarrow> bool) \<Rightarrow> ('e \<Rightarrow> 's \<Rightarrow> 'a \<Rightarrow> 's option option) \<Rightarrow> ('s \<Rightarrow> 'a \<Rightarrow> bool) \<Rightarrow> 's \<Rightarrow> bool"
  for start step pre where
  start: "start s \<Longrightarrow> reachable_by start step pre s"
| call: "reachable_by start step pre s \<Longrightarrow> pre s a \<Longrightarrow> step e s a = Some (Some s') \<Longrightarrow>
     reachable_by start step pre s'"

text \<open>
  The contract of a machine: its start states satisfy an invariant, and in a state of the
  invariant every permitted call returns, without a fault, in a state of the invariant.
\<close>

locale sound_machine =
  fixes start :: "'s \<Rightarrow> bool" and step :: "'e \<Rightarrow> 's \<Rightarrow> 'a \<Rightarrow> 's option option"
    and pre :: "'s \<Rightarrow> 'a \<Rightarrow> bool" and inv :: "'s \<Rightarrow> bool"
  assumes start_inv: "start s \<Longrightarrow> inv s"
    and step_inv: "inv s \<Longrightarrow> pre s a \<Longrightarrow> \<exists>s'. step e s a = Some (Some s') \<and> inv s'"
begin

lemma reachable_inv: "reachable_by start step pre s \<Longrightarrow> inv s"
proof (induction rule: reachable_by.induct)
  case (start s)
  then show ?case by (rule start_inv)
next
  case (call s a e s')
  then show ?case using step_inv [of s a e] by auto
qed

lemma progress:
  assumes "reachable_by start step pre s" "pre s a"
  shows "\<exists>s'. step e s a = Some (Some s') \<and> reachable_by start step pre s' \<and> inv s'"
  using step_inv [OF reachable_inv [OF assms(1)] assms(2), of e] reachable_by.call [OF assms] by blast

end

interpretation api: sound_machine created api_step call_ok live
  by unfold_locales (auto intro: live_created api_step_live)

lemma reachable_fresh: "reachable_by created api_step call_ok (fresh_ctx r)"
  using create_fresh by (intro reachable_by.start) (auto simp: created_def pqwire_create_def)

section \<open>Properties\<close>

text \<open>
  C3. The library is sound for its callers: in every context reached from
  \<open>pqwire_create_with_config\<close> by any sequence of calls, under any allocation failures, every
  call that meets its documented conditions returns, faults on nothing, and leaves a context
  of the same kind.
\<close>

theorem api_sound:
  assumes "reachable_by created api_step call_ok c" "call_ok c a"
  shows "\<exists>c'. api_step E c a = Some (Some c') \<and> reachable_by created api_step call_ok c' \<and> live c'"
  by (rule api.progress [OF assms])

theorem api_sound_witness:
  "\<exists>c'. api_step roomy_env (fresh_ctx PQWIRE_ROLE_CLIENT) (Feed (Some [90, 0, 0, 0, 5, 73])) = Some (Some c') \<and>
     reachable_by created api_step call_ok c' \<and> live c'"
  by (rule api_sound [OF reachable_fresh]) (simp add: c_str_def)

text \<open>
  C5. The states that occur: every reachable context is well-formed, \<open>PROTO_STATE_ERROR\<close> is
  never entered, a client is in STARTUP or READY only, the SCRAM conversation of a client
  never gets past its first message, and a server's authentication state never changes.
\<close>

theorem reachable_phases:
  assumes "reachable_by created api_step call_ok c"
  shows "wf_ctx c \<and> phase_ok (role c) (phase c) \<and> pqwire_current_state c \<in> {0, 1, 2, 3}"
proof -
  have "live c" by (rule api.reachable_inv [OF assms])
  then show ?thesis
    by (cases "role c") (auto simp: live_def phase_def pqwire_current_state_def)
qed

theorem reachable_phases_witness:
  "wf_ctx (fresh_ctx PQWIRE_ROLE_SERVER) \<and> phase_ok (role (fresh_ctx PQWIRE_ROLE_SERVER)) (phase (fresh_ctx PQWIRE_ROLE_SERVER)) \<and>
   pqwire_current_state (fresh_ctx PQWIRE_ROLE_SERVER) \<in> {0, 1, 2, 3}"
  by (rule reachable_phases [OF reachable_fresh])

end
