(* ===== verification/Mitm.thy ===== *)
theory Mitm
  imports Machine
begin

text \<open>
  The man-in-the-middle relay of \<open>src/src/mitm.c\<close>. The two contexts it joins are objects that
  the caller goes on using, so they live in a \<open>heap\<close> by address and the relay holds the
  addresses; a relay between a context and itself is possible. A NULL handle is \<open>None\<close>. The
  array of attack numbers is refined to a bounded list, the relay to a pair of byte streams
  (through a second interpretation of \<open>hidden_update\<close>), and the library together with the relay
  is again a \<open>sound_machine\<close>.

  Results: \<open>None\<close> where a feed does not return, \<open>Some None\<close> for a fault, as in \<open>Feed\<close>.
\<close>

section \<open>State and operations\<close>

type_synonym heap = "nat \<Rightarrow> pqwire_ctx option"

record mitm_ctx =
  mi_client :: nat
  mi_server :: nat
  enabled_attacks :: "int list"
  attack_count :: nat

definition MITM_ATTACK_DROP_MESSAGE :: int where
  "MITM_ATTACK_DROP_MESSAGE = 1"

definition MITM_ATTACK_CORRUPT_LENGTH :: int where
  "MITM_ATTACK_CORRUPT_LENGTH = 2"

definition MITM_ATTACK_FLIP_BITS :: int where
  "MITM_ATTACK_FLIP_BITS = 3"

text \<open>\<open>None\<close> is \<open>NULL\<close>; the structure has 88 bytes.\<close>

definition mitm_create :: "env \<Rightarrow> nat option \<Rightarrow> nat option \<Rightarrow> mitm_ctx option" where
  "mitm_create E client server =
     (case (client, server) of
        (Some a, Some b) \<Rightarrow>
          if alloc_ok E (AllocBytes 88)
          then Some \<lparr>mi_client = a, mi_server = b, enabled_attacks = replicate 16 0, attack_count = 0\<rparr>
          else None
      | _ \<Rightarrow> None)"

text \<open>\<open>mitm_destroy\<close>: whether storage is freed.\<close>

definition mitm_destroy :: "mitm_ctx option \<Rightarrow> bool" where
  "mitm_destroy m = (m \<noteq> None)"

text \<open>
  One direction: up to 4096 bytes of output of the context at \<open>a\<close> become input of the one at
  \<open>b\<close>. A missing context is a fault.
\<close>

definition relay :: "env \<Rightarrow> heap \<Rightarrow> nat \<Rightarrow> nat \<Rightarrow> heap option option" where
  "relay E h a b =
     (case h a of
        None \<Rightarrow> Some None
      | Some c \<Rightarrow>
          (case pqwire_get_output c (Some 4096) of
             None \<Rightarrow> Some None
           | Some (buf, c') \<Rightarrow>
               let h = h(a \<mapsto> c') in
               if length buf > 0
               then case h b of
                      None \<Rightarrow> Some None
                    | Some s \<Rightarrow>
                        (case pqwire_feed_input E s (Some buf) of
                           None \<Rightarrow> None
                         | Some None \<Rightarrow> Some None
                         | Some (Some (n, s')) \<Rightarrow> Some (Some (h(b \<mapsto> s'))))
               else Some (Some h)))"

definition mitm_step :: "env \<Rightarrow> heap \<Rightarrow> mitm_ctx option \<Rightarrow> (int \<times> heap) option option" where
  "mitm_step E h mitm =
     (case mitm of
        None \<Rightarrow> Some (Some (- 1, h))
      | Some m \<Rightarrow>
          (case relay E h (mi_client m) (mi_server m) of
             None \<Rightarrow> None
           | Some None \<Rightarrow> Some None
           | Some (Some h) \<Rightarrow>
               map_option (map_option (\<lambda>h. (0, h))) (relay E h (mi_server m) (mi_client m))))"

text \<open>A NULL handle is accepted and ignored. The result \<open>None\<close> is an access outside the array.\<close>

definition mitm_enable_attack :: "mitm_ctx option \<Rightarrow> int \<Rightarrow> mitm_ctx option option" where
  "mitm_enable_attack mitm attack_id =
     (case mitm of
        None \<Rightarrow> Some None
      | Some m \<Rightarrow>
          if attack_count m \<ge> 16 then Some mitm
          else do {
            arr \<leftarrow> store (enabled_attacks m) (attack_count m) attack_id;
            Some (Some (m\<lparr>enabled_attacks := arr, attack_count := attack_count m + 1\<rparr>))
          })"

text \<open>\<open>for (; j < n; j++) arr[j] = arr[j + 1];\<close>.\<close>

function shift_attacks :: "int list \<Rightarrow> nat \<Rightarrow> nat \<Rightarrow> int list option" where
  "shift_attacks arr j n =
     (if j < n
      then case peek arr (j + 1) of
             None \<Rightarrow> None
           | Some x \<Rightarrow> (case store arr j x of None \<Rightarrow> None | Some arr \<Rightarrow> shift_attacks arr (Suc j) n)
      else Some arr)"
  by pat_completeness auto
termination
  by (relation "measure (\<lambda>(arr, j, n). n - j)") auto

declare shift_attacks.simps [simp del]

function disable_from :: "mitm_ctx \<Rightarrow> int \<Rightarrow> nat \<Rightarrow> mitm_ctx option" where
  "disable_from m attack_id i =
     (if i < attack_count m
      then case peek (enabled_attacks m) i of
             None \<Rightarrow> None
           | Some x \<Rightarrow>
               if x = attack_id
               then map_option (\<lambda>arr. m\<lparr>enabled_attacks := arr, attack_count := attack_count m - 1\<rparr>)
                      (shift_attacks (enabled_attacks m) i (attack_count m - 1))
               else disable_from m attack_id (Suc i)
      else Some m)"
  by pat_completeness auto
termination
  by (relation "measure (\<lambda>(m, attack_id, i). attack_count m - i)") auto

declare disable_from.simps [simp del]

definition mitm_disable_attack :: "mitm_ctx option \<Rightarrow> int \<Rightarrow> mitm_ctx option option" where
  "mitm_disable_attack mitm attack_id =
     (case mitm of
        None \<Rightarrow> Some None
      | Some m \<Rightarrow> map_option Some (disable_from m attack_id 0))"

section \<open>The attacks are a bounded list\<close>

definition attacks :: "mitm_ctx \<Rightarrow> int list" where
  "attacks m = take (attack_count m) (enabled_attacks m)"

definition wf_mitm :: "mitm_ctx \<Rightarrow> bool" where
  "wf_mitm m \<longleftrightarrow> length (enabled_attacks m) = 16 \<and> attack_count m \<le> 16"

lemma shift_attacks_ok:
  assumes "j \<le> n" "n < length arr"
  shows "shift_attacks arr j n = Some (take j arr @ take (n - j) (drop (Suc j) arr) @ drop n arr)"
  using assms
proof (induction "n - j" arbitrary: j arr)
  case 0
  then show ?case by (subst shift_attacks.simps) simp
next
  case (Suc k)
  then have j: "j < n" "k = n - Suc j" by simp_all
  let ?a = "arr[j := arr ! Suc j]"
  have "shift_attacks arr j n = shift_attacks ?a (Suc j) n"
    using j(1) Suc.prems by (subst shift_attacks.simps) simp
  also have "\<dots> = Some (take (Suc j) ?a @ take (n - Suc j) (drop (Suc (Suc j)) ?a) @ drop n ?a)"
    by (rule Suc.hyps(1)) (use j Suc.prems in auto)
  also have "take (Suc j) ?a = take j arr @ [arr ! Suc j]"
    using j(1) Suc.prems(2) by (simp add: take_Suc_conv_app_nth)
  also have "drop (Suc (Suc j)) ?a = drop (Suc (Suc j)) arr" by simp
  also have "drop n ?a = drop n arr" using j(1) by simp
  also have "(take j arr @ [arr ! Suc j]) @ take (n - Suc j) (drop (Suc (Suc j)) arr) @ drop n arr =
      take j arr @ take (n - j) (drop (Suc j) arr) @ drop n arr"
  proof -
    have "drop (Suc j) arr = arr ! Suc j # drop (Suc (Suc j)) arr"
      using j(1) Suc.prems(2) by (subst Cons_nth_drop_Suc) auto
    moreover have "n - j = Suc (n - Suc j)" using j(1) by simp
    ultimately show ?thesis by simp
  qed
  finally show ?case .
qed

lemma disable_from_ok:
  assumes "wf_mitm m" "i \<le> attack_count m" "attack_id \<notin> set (take i (attacks m))"
  shows "\<exists>m'. disable_from m attack_id i = Some m' \<and> wf_mitm m' \<and> attacks m' = remove1 attack_id (attacks m) \<and>
     mi_client m' = mi_client m \<and> mi_server m' = mi_server m"
  using assms(2,3)
proof (induction "attack_count m - i" arbitrary: i)
  case 0
  then have "attack_id \<notin> set (attacks m)" by (simp add: attacks_def)
  with 0 assms(1) show ?case by (subst disable_from.simps) (simp add: remove1_idem)
next
  case (Suc k)
  let ?n = "attack_count m" and ?arr = "enabled_attacks m"
  have i: "i < ?n" "k = ?n - Suc i" "?n \<le> length ?arr" "i < length ?arr"
    using Suc.hyps(2) assms(1) by (auto simp: wf_mitm_def)
  have s: "attacks m = take i ?arr @ ?arr ! i # take (?n - Suc i) (drop (Suc i) ?arr)"
    using id_take_nth_drop [of i "attacks m"] i by (simp add: attacks_def drop_take min_def)
  have ni: "attack_id \<notin> set (take i ?arr)" using Suc.prems(2) i(1) by (simp add: attacks_def min_def)
  show ?case
  proof (cases "?arr ! i = attack_id")
    case True
    let ?a = "take i ?arr @ take (?n - 1 - i) (drop (Suc i) ?arr) @ drop (?n - 1) ?arr"
    have "shift_attacks ?arr i (?n - 1) = Some ?a"
      by (rule shift_attacks_ok) (use i in auto)
    then have d: "disable_from m attack_id i = Some (m\<lparr>enabled_attacks := ?a, attack_count := ?n - 1\<rparr>)"
      using i(1,4) True by (subst disable_from.simps) simp
    have "length (take i ?arr @ take (?n - 1 - i) (drop (Suc i) ?arr)) = ?n - 1" using i by auto
    then have "take (?n - 1) ?a = take i ?arr @ take (?n - 1 - i) (drop (Suc i) ?arr)"
      by (metis append_assoc append_eq_conv_conj)
    then have "take (?n - 1) ?a = take i ?arr @ take (?n - Suc i) (drop (Suc i) ?arr)" by simp
    also have "\<dots> = remove1 attack_id (attacks m)"
      unfolding s using True ni by (simp add: remove1_append)
    finally have "attacks (m\<lparr>enabled_attacks := ?a, attack_count := ?n - 1\<rparr>) = remove1 attack_id (attacks m)"
      by (simp add: attacks_def)
    moreover have "wf_mitm (m\<lparr>enabled_attacks := ?a, attack_count := ?n - 1\<rparr>)"
      using assms(1) i by (auto simp: wf_mitm_def min_def)
    ultimately show ?thesis using d by simp
  next
    case False
    have "disable_from m attack_id i = disable_from m attack_id (Suc i)"
      using i(1,4) False by (subst disable_from.simps) simp
    moreover have "attack_id \<notin> set (take (Suc i) (attacks m))"
      using ni False i by (simp add: attacks_def take_Suc_conv_app_nth min_def)
    ultimately show ?thesis using Suc.hyps(1) [OF i(2)] i(1) by simp
  qed
qed

lemma enable_attack_ok:
  assumes "wf_mitm m"
  shows "\<exists>m'. mitm_enable_attack (Some m) attack_id = Some (Some m') \<and> wf_mitm m' \<and>
     attacks m' = (if length (attacks m) < 16 then attacks m @ [attack_id] else attacks m) \<and>
     mi_client m' = mi_client m \<and> mi_server m' = mi_server m"
  using assms
  by (auto simp: mitm_enable_attack_def wf_mitm_def attacks_def take_Suc_conv_app_nth)

section \<open>One direction of the relay\<close>

text \<open>\<open>fed E s bs s'\<close>: the bytes, if there are any, were fed to \<open>s\<close>.\<close>

definition fed :: "env \<Rightarrow> pqwire_ctx \<Rightarrow> bytes \<Rightarrow> pqwire_ctx \<Rightarrow> bool" where
  "fed E s bs s' \<longleftrightarrow> (if bs = [] then s' = s else \<exists>n. pqwire_feed_input E s (Some bs) = Some (Some (n, s')))"

lemma relay_ok:
  assumes "a \<noteq> b" "h a = Some c" "h b = Some s" "live c" "live s" "input_len s + 4096 < 2 ^ 32"
  shows "\<exists>c' s'. relay E h a b = Some (Some (h(a \<mapsto> c', b \<mapsto> s'))) \<and> live c' \<and> live s' \<and> output_frame c c' \<and>
     output_bytes c' = drop 4096 (output_bytes c) \<and> output_bytes s' = output_bytes s \<and>
     fed E s (take 4096 (output_bytes c)) s'"
proof -
  let ?bs = "take 4096 (output_bytes c)"
  obtain c' where c': "pqwire_get_output c (Some 4096) = Some (?bs, c')" "wf_output c'" "output_frame c c'"
    "output_bytes c' = drop 4096 (output_bytes c)"
    using get_output_ok [OF liveD(3) [OF assms(4)]] by blast
  have lc: "live c'" by (rule live_output [OF assms(4) c'(3,2)])
  show ?thesis
  proof (cases "output_bytes c = []")
    case True
    then have "relay E h a b = Some (Some (h(a \<mapsto> c')))" using assms(2) c'(1) by (simp add: relay_def)
    moreover have "h(a \<mapsto> c') = h(a \<mapsto> c', b \<mapsto> s)" using assms(1,3) by (auto simp: fun_eq_iff)
    ultimately show ?thesis using True c' lc assms(5) by (auto simp: fed_def)
  next
    case False
    have "input_len s + length ?bs < 2 ^ 32" using assms(6) by simp
    from feed_input_moved [OF liveD(1,2) [OF assms(5)] this, of E] obtain n s' where
      s': "pqwire_feed_input E s (Some ?bs) = Some (Some (n, s'))" "moved s s'" by blast
    have "relay E h a b = Some (Some (h(a \<mapsto> c', b \<mapsto> s')))"
      using False assms(1-3) c'(1) s'(1) by (simp add: relay_def)
    moreover have "output_bytes s' = output_bytes s"
      using movedD(2) [OF s'(2)] by (simp add: settings_def output_bytes_def)
    ultimately show ?thesis using False c' lc live_moved [OF assms(5) s'(2)] s'(1) by (auto simp: fed_def)
  qed
qed

text \<open>
  The return value of the feed is ignored: when the receiver cannot grow its input buffer, the
  bytes have left the sender and reach nobody.
\<close>

lemma relay_refused:
  assumes "a \<noteq> b" "h a = Some c" "h b = Some s" "wf_output c" "output_bytes c \<noteq> []"
    "reserve_input E s (length (take 4096 (output_bytes c))) = None"
  shows "\<exists>c'. relay E h a b = Some (Some (h(a \<mapsto> c'))) \<and> output_bytes c' = drop 4096 (output_bytes c)"
proof -
  obtain c' where c': "pqwire_get_output c (Some 4096) = Some (take 4096 (output_bytes c), c')"
    "output_bytes c' = drop 4096 (output_bytes c)"
    using get_output_ok [OF assms(4)] by blast
  have "h(a \<mapsto> c', b \<mapsto> s) = h(a \<mapsto> c')" using assms(1,3) by (auto simp: fun_eq_iff)
  with feed_input_refused [OF assms(6)] c' assms(1-3,5) show ?thesis by (auto simp: relay_def)
qed

section \<open>The system as a machine\<close>

datatype mitm_call =
    Step
  | EnableAttack int
  | DisableAttack int
  | OnClient api_call
  | OnServer api_call

definition on_ctx :: "env \<Rightarrow> heap \<Rightarrow> nat \<Rightarrow> api_call \<Rightarrow> heap option option" where
  "on_ctx E h a call =
     (case h a of
        None \<Rightarrow> Some None
      | Some c \<Rightarrow> map_option (map_option (\<lambda>c'. h(a \<mapsto> c'))) (api_step E c call))"

definition with_ctx :: "heap \<Rightarrow> mitm_ctx option option \<Rightarrow> (heap \<times> mitm_ctx) option" where
  "with_ctx h r = (case r of Some (Some m) \<Rightarrow> Some (h, m) | _ \<Rightarrow> None)"

fun sys_step :: "env \<Rightarrow> heap \<times> mitm_ctx \<Rightarrow> mitm_call \<Rightarrow> (heap \<times> mitm_ctx) option option" where
  "sys_step E (h, m) Step = map_option (map_option (\<lambda>(rc, h). (h, m))) (mitm_step E h (Some m))"
| "sys_step E (h, m) (EnableAttack i) = Some (with_ctx h (mitm_enable_attack (Some m) i))"
| "sys_step E (h, m) (DisableAttack i) = Some (with_ctx h (mitm_disable_attack (Some m) i))"
| "sys_step E (h, m) (OnClient call) = map_option (map_option (\<lambda>h. (h, m))) (on_ctx E h (mi_client m) call)"
| "sys_step E (h, m) (OnServer call) = map_option (map_option (\<lambda>h. (h, m))) (on_ctx E h (mi_server m) call)"

definition input_below :: "heap \<Rightarrow> nat \<Rightarrow> bool" where
  "input_below h a \<longleftrightarrow> (case h a of None \<Rightarrow> False | Some c \<Rightarrow> input_len c + 4096 < 2 ^ 32)"

fun sys_ok :: "heap \<times> mitm_ctx \<Rightarrow> mitm_call \<Rightarrow> bool" where
  "sys_ok (h, m) Step \<longleftrightarrow> input_below h (mi_client m) \<and> input_below h (mi_server m)"
| "sys_ok (h, m) (OnClient call) \<longleftrightarrow> (case h (mi_client m) of None \<Rightarrow> False | Some c \<Rightarrow> call_ok c call)"
| "sys_ok (h, m) (OnServer call) \<longleftrightarrow> (case h (mi_server m) of None \<Rightarrow> False | Some c \<Rightarrow> call_ok c call)"
| "sys_ok (h, m) _ \<longleftrightarrow> True"

fun sys_live :: "heap \<times> mitm_ctx \<Rightarrow> bool" where
  "sys_live (h, m) \<longleftrightarrow> wf_mitm m \<and> mi_client m \<noteq> mi_server m \<and>
     (\<exists>c s. h (mi_client m) = Some c \<and> h (mi_server m) = Some s \<and> live c \<and> live s)"

fun sys_start :: "heap \<times> mitm_ctx \<Rightarrow> bool" where
  "sys_start (h, m) \<longleftrightarrow>
     (\<exists>E a b c s. a \<noteq> b \<and> h a = Some c \<and> h b = Some s \<and> created c \<and> created s \<and>
        mitm_create E (Some a) (Some b) = Some m)"

lemma sys_start_live: "sys_start hm \<Longrightarrow> sys_live hm"
  by (cases hm) (auto simp: mitm_create_def wf_mitm_def live_created split: if_splits)

text \<open>Nothing but the context addressed is changed, so the other one stays as it is.\<close>

lemma on_ctx_live:
  assumes "h a = Some c" "live c" "call_ok c call"
  shows "\<exists>c'. on_ctx E h a call = Some (Some (h(a \<mapsto> c'))) \<and> live c'"
  using api_step_live [OF assms(2,3), of E] assms(1) by (auto simp: on_ctx_def)

lemma mitm_step_ok:
  assumes "mi_client m \<noteq> mi_server m" "h (mi_client m) = Some c" "h (mi_server m) = Some s" "live c" "live s"
    "input_len c + 4096 < 2 ^ 32" "input_len s + 4096 < 2 ^ 32"
  shows "\<exists>c1 s1 c2 s2. mitm_step E h (Some m) = Some (Some (0, h(mi_client m \<mapsto> c2, mi_server m \<mapsto> s2))) \<and>
     output_frame c c1 \<and> output_bytes c1 = drop 4096 (output_bytes c) \<and>
     fed E s (take 4096 (output_bytes c)) s1 \<and>
     output_frame s1 s2 \<and> output_bytes s2 = drop 4096 (output_bytes s) \<and>
     fed E c1 (take 4096 (output_bytes s)) c2 \<and>
     output_bytes c2 = drop 4096 (output_bytes c) \<and> live c1 \<and> live s1 \<and> live c2 \<and> live s2"
proof -
  let ?a = "mi_client m" and ?b = "mi_server m"
  obtain c1 s1 where r: "relay E h ?a ?b = Some (Some (h(?a \<mapsto> c1, ?b \<mapsto> s1)))" "live c1" "live s1"
    "output_frame c c1" "output_bytes c1 = drop 4096 (output_bytes c)" "output_bytes s1 = output_bytes s"
    "fed E s (take 4096 (output_bytes c)) s1"
    using relay_ok [OF assms(1-5,7), of E] by blast
  let ?h = "h(?a \<mapsto> c1, ?b \<mapsto> s1)"
  have h: "?h ?b = Some s1" "?h ?a = Some c1" using assms(1) by auto
  have "input_len c1 + 4096 < 2 ^ 32" using assms(6) output_frameD(10) [OF r(4)] by simp
  from relay_ok [OF assms(1) [symmetric] h r(3,2) this, of E] obtain s2 c2 where
    q: "relay E ?h ?b ?a = Some (Some (?h(?b \<mapsto> s2, ?a \<mapsto> c2)))" "live s2" "live c2"
    "output_frame s1 s2" "output_bytes s2 = drop 4096 (output_bytes s1)" "output_bytes c2 = output_bytes c1"
    "fed E c1 (take 4096 (output_bytes s1)) c2" by blast
  have "?h(?b \<mapsto> s2, ?a \<mapsto> c2) = h(?a \<mapsto> c2, ?b \<mapsto> s2)" using assms(1) by (auto simp: fun_eq_iff)
  then have "mitm_step E h (Some m) = Some (Some (0, h(?a \<mapsto> c2, ?b \<mapsto> s2)))"
    using r(1) q(1) by (simp add: mitm_step_def)
  then show ?thesis using r(2-5,7) q(2-4) q(5,7) [unfolded r(6)] trans [OF q(6) r(5)] by blast
qed

lemma sys_step_live:
  assumes "sys_live hm" "sys_ok hm call"
  shows "\<exists>hm'. sys_step E hm call = Some (Some hm') \<and> sys_live hm'"
proof -
  obtain h m where hm: "hm = (h, m)" by (cases hm)
  obtain c s where l: "wf_mitm m" "mi_client m \<noteq> mi_server m" "h (mi_client m) = Some c" "h (mi_server m) = Some s"
    "live c" "live s" using assms(1) hm by auto
  show ?thesis
  proof (cases call)
    case Step
    then have "input_len c + 4096 < 2 ^ 32" "input_len s + 4096 < 2 ^ 32"
      using assms(2) hm l(3,4) by (auto simp: input_below_def)
    from mitm_step_ok [OF l(2-6) this, of E] show ?thesis using Step hm l(1,2) by auto
  next
    case (EnableAttack i)
    then show ?thesis using enable_attack_ok [OF l(1), of i] hm l(2-6) by (auto simp: with_ctx_def)
  next
    case (DisableAttack i)
    then show ?thesis using disable_from_ok [OF l(1), of 0 i] hm l(2-6) by (auto simp: mitm_disable_attack_def with_ctx_def)
  next
    case (OnClient a)
    then show ?thesis using on_ctx_live [of h "mi_client m" c a E] assms(2) hm l by auto
  next
    case (OnServer a)
    then show ?thesis using on_ctx_live [of h "mi_server m" s a E] assms(2) hm l by auto
  qed
qed

interpretation sys: sound_machine sys_start sys_step sys_ok sys_live
  by unfold_locales (fact sys_start_live, fact sys_step_live)

section \<open>Streams through the relay\<close>

text \<open>\<open>mute c\<close>: the context without its output, which the handlers do not look at either.\<close>

definition mute :: "pqwire_ctx \<Rightarrow> pqwire_ctx" where
  "mute c = c\<lparr>output_buf := [], output_len := 0, output_cap := 0\<rparr>"

interpretation no_output: hidden_update mute
  by unfold_locales (simp_all add: mute_def enqueue_event_def Let_def store_def)

text \<open>
  \<open>streamed x p s\<close>: the context \<open>s\<close> is what the bytes \<open>p\<close> make of \<open>x\<close>, as far as everything
  but the buffers goes.
\<close>

definition streamed :: "pqwire_ctx \<Rightarrow> bytes \<Rightarrow> pqwire_ctx \<Rightarrow> bool" where
  "streamed x p s \<longleftrightarrow> frame_run x p = Some (mute (core s), pending_input s)"

lemma streamed_output: "streamed x p s \<Longrightarrow> output_frame s s' \<Longrightarrow> streamed x p s'"
  by (auto simp: streamed_def output_frame_def mute_def core_def pending_input_def)

lemma streamed_start: "pending_input s = [] \<Longrightarrow> streamed (mute (core s)) [] s"
  by (simp add: streamed_def frame_run.simps frame_step_def frame_startup_def frame_typed_def)

lemma streamed_fed:
  assumes "streamed x p s" "live s" "clean x (p @ d @ q)"
    "d \<noteq> [] \<Longrightarrow> input_len s + length d \<le> input_cap s" "input_cap s < 2 ^ 32" "fed E s d s'"
  shows "streamed x (p @ d) s' \<and> input_cap s' = input_cap s"
proof (cases "d = []")
  case True
  then show ?thesis using assms(1,6) by (simp add: fed_def)
next
  case False
  note run = assms(1) [unfolded streamed_def] and w = liveD(1,2) [OF assms(2)]
  have r: "reserve_input E s (length d) = Some s" using assms(4) False by (simp add: reserve_input_def)
  have "input_len s + length d < 2 ^ 32" using assms(4,5) False by simp
  from feed_input_runs [OF w this r] False assms(6) have f:
    "frame_run (core s) (pending_input s @ d) = Some (core s', pending_input s')" "input_cap s' = input_cap s"
    by (auto simp: fed_def)
  have "frame_run (mute (core s)) (pending_input s @ d) = Some (mute (core s'), pending_input s')"
    using f(1) by (simp add: no_output.frame_run_u)
  moreover have "clean x p" using clean_append [of x p "d @ q"] assms(3) run by blast
  ultimately show ?thesis using frame_run_append [OF _ run, of d] f(2) by (simp add: streamed_def)
qed

text \<open>The relay run for \<open>n\<close> steps, each in an environment of its own.\<close>

fun mitm_steps :: "(nat \<Rightarrow> env) \<Rightarrow> nat \<Rightarrow> heap \<Rightarrow> mitm_ctx \<Rightarrow> heap option option" where
  "mitm_steps E 0 h m = Some (Some h)"
| "mitm_steps E (Suc n) h m =
     (case mitm_step (E n) h (Some m) of
        None \<Rightarrow> None
      | Some None \<Rightarrow> Some None
      | Some (Some (rc, h)) \<Rightarrow> mitm_steps E n h m)"

text \<open>
  \<open>fits x got cap\<close>: when \<open>got\<close> arrives in pieces of 4096 bytes, what \<open>x\<close> has pending of the
  pieces before and the next piece never exceed \<open>cap\<close> together.
\<close>

definition fits :: "pqwire_ctx \<Rightarrow> bytes \<Rightarrow> nat \<Rightarrow> bool" where
  "fits x got cap \<longleftrightarrow>
     (\<forall>k < length got. 4096 dvd k \<longrightarrow>
        (case frame_run x (take k got) of
           None \<Rightarrow> True
         | Some (y, rest) \<Rightarrow> length rest + length (take 4096 (drop k got)) \<le> cap))"

lemma fits_whole:
  assumes "length got \<le> cap"
  shows "fits x got cap"
proof -
  have "length rest + length (take 4096 (drop k got)) \<le> cap"
    if "k < length got" "frame_run x (take k got) = Some (y, rest)" for k y rest
    using frame_run_shrinks [OF that(2)] that(1) assms by auto
  then show ?thesis by (auto simp: fits_def split: option.split)
qed

text \<open>A context that got the first \<open>k\<close> bytes of a stream, with room for the pieces to come.\<close>

definition heard :: "pqwire_ctx \<Rightarrow> bytes \<Rightarrow> nat \<Rightarrow> pqwire_ctx \<Rightarrow> bool" where
  "heard x got k s \<longleftrightarrow> live s \<and> streamed x (take k got) s \<and> 4096 dvd k \<and> fits x got (input_cap s) \<and>
     input_cap s + 4096 < 2 ^ 32"

lemma heard_input_len: "heard x got k s \<Longrightarrow> input_len s + 4096 < 2 ^ 32"
  using liveD(1) [of s] by (auto simp: heard_def wf_defs)

lemma heard_output: "heard x got k s \<Longrightarrow> output_frame s s' \<Longrightarrow> live s' \<Longrightarrow> heard x got k s'"
  by (auto simp: heard_def output_frameD intro: streamed_output)

lemma heard_fed:
  assumes "heard x got k s" "clean x got" "fed E s (take 4096 (drop k got)) s'" "live s'"
  shows "heard x got (k + 4096) s'"
proof -
  let ?d = "take 4096 (drop k got)"
  have split: "take k got @ ?d @ drop 4096 (drop k got) = got"
    by (simp del: drop_drop)
  have l: "input_len s + length ?d \<le> input_cap s" if "?d \<noteq> []"
  proof -
    have "k < length got" using that by (cases "k < length got") auto
    moreover have "length (pending_input s) = input_len s"
      using assms(1) liveD(1) [of s] by (intro length_pending) (auto simp: heard_def wf_ctx_def)
    ultimately show ?thesis using assms(1) by (auto simp: heard_def fits_def streamed_def)
  qed
  have "streamed x (take k got @ ?d) s' \<and> input_cap s' = input_cap s"
    by (rule streamed_fed [where q = "drop 4096 (drop k got)", OF _ _ _ l _ assms(3)])
      (use assms(1,2) split in \<open>auto simp: heard_def\<close>)
  then show ?thesis using assms(1,4) by (simp add: heard_def take_add add.commute)
qed

text \<open>Both sides of the relay after \<open>k\<close> bytes each way.\<close>

lemma mitm_steps_heard:
  assumes "mi_client m \<noteq> mi_server m" "clean x outs" "clean y outc"
    "h (mi_client m) = Some c" "h (mi_server m) = Some s"
    "heard x outs k c" "output_bytes c = drop k outc" "heard y outc k s" "output_bytes s = drop k outs"
  shows "\<exists>c' s'. mitm_steps E n h m = Some (Some (h(mi_client m \<mapsto> c', mi_server m \<mapsto> s'))) \<and>
     heard x outs (k + 4096 * n) c' \<and> output_bytes c' = drop (k + 4096 * n) outc \<and>
     heard y outc (k + 4096 * n) s' \<and> output_bytes s' = drop (k + 4096 * n) outs"
  using assms(4-9)
proof (induction n arbitrary: h k c s)
  case 0
  then have "h = h(mi_client m \<mapsto> c, mi_server m \<mapsto> s)" by (auto simp: fun_eq_iff)
  with 0 show ?case by (intro exI [of _ c] exI [of _ s]) auto
next
  case (Suc n)
  have l: "live c" "live s" using Suc.prems(3,5) by (simp_all add: heard_def)
  obtain c1 s1 c2 s2 where st:
    "mitm_step (E n) h (Some m) = Some (Some (0, h(mi_client m \<mapsto> c2, mi_server m \<mapsto> s2)))"
    "output_frame c c1" "fed (E n) s (take 4096 (drop k outc)) s1" "output_frame s1 s2"
    "output_bytes s2 = drop (k + 4096) outs" "fed (E n) c1 (take 4096 (drop k outs)) c2"
    "output_bytes c2 = drop (k + 4096) outc" "live c1" "live s1" "live c2" "live s2"
    using mitm_step_ok [OF assms(1) Suc.prems(1,2) l heard_input_len [OF Suc.prems(3)] heard_input_len [OF Suc.prems(5)], of "E n"]
    by (auto simp: Suc.prems(4,6) add.commute)
  let ?h = "h(mi_client m \<mapsto> c2, mi_server m \<mapsto> s2)"
  have c2: "heard x outs (k + 4096) c2"
    by (rule heard_fed [OF heard_output [OF Suc.prems(3) st(2,8)] assms(2) st(6,10)])
  have s2: "heard y outc (k + 4096) s2"
    by (rule heard_output [OF heard_fed [OF Suc.prems(5) assms(3) st(3,9)] st(4,11)])
  have h: "?h (mi_client m) = Some c2" "?h (mi_server m) = Some s2" using assms(1) by auto
  obtain c' s' where n: "mitm_steps E n ?h m = Some (Some (?h(mi_client m \<mapsto> c', mi_server m \<mapsto> s')))"
    "heard x outs (k + 4096 + 4096 * n) c'" "output_bytes c' = drop (k + 4096 + 4096 * n) outc"
    "heard y outc (k + 4096 + 4096 * n) s'" "output_bytes s' = drop (k + 4096 + 4096 * n) outs"
    using Suc.IH [OF h c2 st(7) s2 st(5)] by blast
  have "?h(mi_client m \<mapsto> c', mi_server m \<mapsto> s') = h(mi_client m \<mapsto> c', mi_server m \<mapsto> s')"
    using assms(1) by (auto simp: fun_eq_iff)
  then have "mitm_steps E (Suc n) h m = Some (Some (h(mi_client m \<mapsto> c', mi_server m \<mapsto> s')))"
    using st(1) n(1) by (simp only: mitm_steps.simps option.case prod.case)
  moreover have "k + 4096 * Suc n = k + 4096 + 4096 * n" by simp
  ultimately show ?case using n(2-5) by (simp only:) blast
qed

section \<open>Properties\<close>

text \<open>
  C14. The enabled attacks are a list of at most sixteen: enabling appends and does nothing when
  sixteen are enabled, disabling removes the first occurrence by shifting the rest down, no
  access leaves the array, and a NULL handle is ignored.
\<close>

theorem mitm_attacks_list:
  assumes "wf_mitm m"
  shows "\<exists>m1 m2. mitm_enable_attack (Some m) attack_id = Some (Some m1) \<and> wf_mitm m1 \<and>
     attacks m1 = (if length (attacks m) < 16 then attacks m @ [attack_id] else attacks m) \<and>
     mitm_disable_attack (Some m) attack_id = Some (Some m2) \<and> wf_mitm m2 \<and>
     attacks m2 = remove1 attack_id (attacks m) \<and>
     mitm_enable_attack None attack_id = Some None \<and> mitm_disable_attack None attack_id = Some None"
  using enable_attack_ok [OF assms, of attack_id] disable_from_ok [OF assms, of 0 attack_id]
  by (auto simp: mitm_disable_attack_def mitm_enable_attack_def)

definition some_mitm :: mitm_ctx where
  "some_mitm = \<lparr>mi_client = 0, mi_server = 1, enabled_attacks = [1, 2, 3] @ replicate 13 0, attack_count = 3\<rparr>"

lemma wf_some_mitm [simp]: "wf_mitm some_mitm"
  by (simp add: wf_mitm_def some_mitm_def)

lemma attacks_some_mitm [simp]: "attacks some_mitm = [1, 2, 3]"
  by (simp add: attacks_def some_mitm_def)

theorem mitm_attacks_list_witness:
  "\<exists>m2. mitm_disable_attack (Some some_mitm) 2 = Some (Some m2) \<and> attacks m2 = [1, 3]"
  using mitm_attacks_list [OF wf_some_mitm, of 2] by auto

text \<open>
  C12. Two contexts joined by the relay, starting from two fresh ones: whatever sequence of
  calls meeting their conditions (\<open>sys_ok\<close>) led to the present state, a call that meets its
  condition returns without a fault and keeps both contexts live and the relay well-formed. The
  calls are those of the library on either context, under the conditions of \<open>call_ok\<close> (arrays
  as long as their counts, no user name of the lengths that overrun the buffer of
  \<open>pqwire_send_startup\<close>, input below 4 GiB), \<open>mitm_step\<close>, which needs room for 4096 bytes below
  that limit on both sides, and enabling and disabling attacks, which need nothing.
\<close>

theorem mitm_sound:
  assumes "reachable_by sys_start sys_step sys_ok hm" "sys_ok hm call"
  shows "\<exists>hm'. sys_step E hm call = Some (Some hm') \<and> reachable_by sys_start sys_step sys_ok hm' \<and> sys_live hm'"
  by (rule sys.progress [OF assms])

definition two_fresh :: heap where
  "two_fresh = [0 \<mapsto> fresh_ctx PQWIRE_ROLE_CLIENT, 1 \<mapsto> fresh_ctx PQWIRE_ROLE_SERVER]"

definition new_mitm :: mitm_ctx where
  "new_mitm = \<lparr>mi_client = 0, mi_server = 1, enabled_attacks = replicate 16 0, attack_count = 0\<rparr>"

lemma created_fresh [simp]: "created (fresh_ctx r)"
  using create_fresh by (auto simp: created_def pqwire_create_def)

lemma create_new_mitm: "mitm_create roomy_env (Some 0) (Some 1) = Some new_mitm"
  by (simp add: mitm_create_def new_mitm_def roomy_env_def)

lemma sys_start_fresh: "sys_start (two_fresh, new_mitm)"
  unfolding sys_start.simps using create_new_mitm
  by (intro exI [of _ roomy_env] exI [of _ 0] exI [of _ 1] exI [of _ "fresh_ctx PQWIRE_ROLE_CLIENT"]
      exI [of _ "fresh_ctx PQWIRE_ROLE_SERVER"]) (simp add: two_fresh_def)

theorem mitm_sound_witness:
  "\<exists>hm'. sys_step roomy_env (two_fresh, new_mitm) Step = Some (Some hm') \<and>
     reachable_by sys_start sys_step sys_ok hm' \<and> sys_live hm'"
  by (rule mitm_sound, rule reachable_by.start, rule sys_start_fresh)
    (simp add: input_below_def two_fresh_def new_mitm_def)

text \<open>
  C4. The relay delivers as long as no input buffer has to grow. Given two distinct live
  contexts without unread input, output streams in which the receiver meets no length field out
  of range (\<open>clean\<close>), and input buffers that have room for each piece of at most 4096 bytes
  behind what is pending of the pieces before it (\<open>fits\<close>): enough steps return, empty both
  outputs, and leave each side as if the whole output of the other had been fed to it in one
  piece, so that all messages arrive in order. Without room the step grows the buffer, and
  when that fails the bytes are lost (\<open>relay_refused\<close>).
\<close>

theorem mitm_relays_streams:
  assumes "mi_client m \<noteq> mi_server m" "h (mi_client m) = Some c" "h (mi_server m) = Some s" "live c" "live s"
    "pending_input c = []" "pending_input s = []"
    "clean (mute (core c)) (output_bytes s)" "clean (mute (core s)) (output_bytes c)"
    "fits (mute (core c)) (output_bytes s) (input_cap c)" "input_cap c + 4096 < 2 ^ 32"
    "fits (mute (core s)) (output_bytes c) (input_cap s)" "input_cap s + 4096 < 2 ^ 32"
    "length (output_bytes c) \<le> 4096 * n" "length (output_bytes s) \<le> 4096 * n"
  shows "\<exists>c' s'. mitm_steps E n h m = Some (Some (h(mi_client m \<mapsto> c', mi_server m \<mapsto> s'))) \<and>
     output_bytes c' = [] \<and> output_bytes s' = [] \<and>
     frame_run (mute (core c)) (output_bytes s) = Some (mute (core c'), pending_input c') \<and>
     frame_run (mute (core s)) (output_bytes c) = Some (mute (core s'), pending_input s')"
proof -
  have "heard (mute (core c)) (output_bytes s) 0 c" "heard (mute (core s)) (output_bytes c) 0 s"
    using assms by (simp_all add: heard_def streamed_start)
  from mitm_steps_heard [OF assms(1,8,9,2,3) this(1) _ this(2), of E n] obtain c' s' where
    "mitm_steps E n h m = Some (Some (h(mi_client m \<mapsto> c', mi_server m \<mapsto> s')))"
    "heard (mute (core c)) (output_bytes s) (4096 * n) c'" "output_bytes c' = drop (4096 * n) (output_bytes c)"
    "heard (mute (core s)) (output_bytes c) (4096 * n) s'" "output_bytes s' = drop (4096 * n) (output_bytes s)"
    by auto
  with assms(14,15) show ?thesis by (intro exI [of _ c'] exI [of _ s']) (simp add: heard_def streamed_def)
qed

definition synced_client :: pqwire_ctx where
  "synced_client = (fresh_ctx PQWIRE_ROLE_CLIENT)
     \<lparr>output_buf := [83, 0, 0, 0, 4] @ replicate 4091 0, output_len := 5, output_cap := 4096\<rparr>"

lemma synced_client_frame: "output_frame (fresh_ctx PQWIRE_ROLE_CLIENT) synced_client"
  unfolding output_frame_def synced_client_def by blast

lemma synced_client_ok [simp]:
  "live synced_client" "output_bytes synced_client = [83, 0, 0, 0, 4]" "pending_input synced_client = []"
  "input_cap synced_client = 4096"
  using live_output [OF live_created [OF created_fresh] synced_client_frame] output_frameD [OF synced_client_frame]
  by (simp_all add: synced_client_def wf_output_def output_bytes_def pending_input_def)

lemma started_server_ok [simp]:
  "live started_server" "output_bytes started_server = []" "pending_input started_server = []"
  "input_cap started_server = 4096"
  using live_created [OF created_fresh, of PQWIRE_ROLE_SERVER]
  by (simp_all add: started_server_def live_def wf_ctx_same ctx_ok_def phase_def output_bytes_def pending_input_def)

theorem mitm_relays_streams_witness:
  "\<exists>c' s'. mitm_steps (\<lambda>_. roomy_env) 1 [0 \<mapsto> synced_client, 1 \<mapsto> started_server] new_mitm =
       Some (Some ([0 \<mapsto> synced_client, 1 \<mapsto> started_server](mi_client new_mitm \<mapsto> c', mi_server new_mitm \<mapsto> s'))) \<and>
     output_bytes c' = [] \<and> output_bytes s' = [] \<and>
     frame_run (mute (core synced_client)) (output_bytes started_server) = Some (mute (core c'), pending_input c') \<and>
     frame_run (mute (core started_server)) (output_bytes synced_client) = Some (mute (core s'), pending_input s')"
proof -
  let ?x = "mute (core started_server)"
  have "wf_ctx ?x" using liveD(1) [OF started_server_ok(1)] by (auto simp: mute_def core_def wf_defs ring_items_def)
  then obtain c' where h: "handle_message ?x 83 5 [] = Some c'"
    using handle_message_safe [of ?x 83 5 "[]"] by (auto simp: safe_step_def)
  have "clean ?x [83, 0, 0, 0, 4]"
    by (rule clean_typed [where n = 4 and c' = c'])
      (simp_all add: rd32_be_def clean_short h, simp_all add: mute_def core_def started_server_def)
  then show ?thesis
    by (intro mitm_relays_streams) (simp_all add: new_mitm_def clean_short fits_whole)
qed

end
