(* ===== verification/Fuzz.thy ===== *)
theory Fuzz
  imports Mitm
begin

text \<open>
  The two libFuzzer harnesses, \<open>src/fuzz/fuzz_pqwire.c\<close> and \<open>src/fuzz/fuzz_mitm.c\<close>, as
  functions of the input and of one environment per call that may allocate. What the harnesses
  are there to find out by sampling, that no input faults or loops, is proved for all inputs
  below 4 GiB.
\<close>

section \<open>The objects of a harness\<close>

text \<open>
  Contexts are created in a \<open>heap\<close> and stay there until \<open>pqwire_destroy\<close> frees them, so what
  is left in the heap when a harness returns is what it leaks. A \<open>pqwire_ctx_t *\<close> is an address
  or \<open>None\<close> for \<open>NULL\<close>. Using or destroying an object that is not there is a fault.
\<close>

definition new_ctx :: "heap \<Rightarrow> nat \<Rightarrow> pqwire_ctx option \<Rightarrow> heap \<times> nat option" where
  "new_ctx h a r = (case r of None \<Rightarrow> (h, None) | Some c \<Rightarrow> (h(a \<mapsto> c), Some a))"

definition destroy_at :: "heap \<Rightarrow> nat option \<Rightarrow> heap option" where
  "destroy_at h ctx =
     (case ctx of
        None \<Rightarrow> Some h
      | Some a \<Rightarrow> do {
          c \<leftarrow> h a;
          let (freed, c') = pqwire_destroy c;
          Some (if freed then h(a := None) else h(a \<mapsto> c'))
        })"

definition feed_at :: "env \<Rightarrow> heap \<Rightarrow> nat \<Rightarrow> bytes \<Rightarrow> heap option option" where
  "feed_at E h a data =
     (case h a of
        None \<Rightarrow> Some None
      | Some c \<Rightarrow> map_option (map_option (\<lambda>(n, c'). h(a \<mapsto> c'))) (pqwire_feed_input E c (Some data)))"

definition drain_at :: "heap \<Rightarrow> nat \<Rightarrow> heap option" where
  "drain_at h a = do { c \<leftarrow> h a; c' \<leftarrow> drain_events c; Some (h(a \<mapsto> c')) }"

section \<open>The harnesses\<close>

text \<open>
  \<open>LLVMFuzzerTestOneInput\<close> of \<open>fuzz_pqwire.c\<close>: the return value and the heap that is left.
  \<open>None\<close> is a loop that does not end, \<open>Some None\<close> a fault.
\<close>

definition fuzz_config :: pqwire_config where
  "fuzz_config = \<lparr>cfg_event_queue_size = 16, cfg_password = None, cfg_use_scram = False,
     cfg_max_message_size = 1024 * 1024\<rparr>"

definition fuzz_pqwire :: "(nat \<Rightarrow> env) \<Rightarrow> bytes \<Rightarrow> (int \<times> heap) option option" where
  "fuzz_pqwire E data =
     (let (h, ctx) = new_ctx Map.empty 0 (pqwire_create_with_config (E 0) PQWIRE_ROLE_CLIENT (Some fuzz_config))
      in case ctx of
           None \<Rightarrow> Some (Some (0, h))
         | Some a \<Rightarrow>
             (case feed_at (E 1) h a data of
                None \<Rightarrow> None
              | Some None \<Rightarrow> Some None
              | Some (Some h) \<Rightarrow>
                  Some (do { h \<leftarrow> drain_at h a; h \<leftarrow> destroy_at h ctx; Some (0, h) })))"

definition fuzz_mitm_config :: pqwire_config where
  "fuzz_mitm_config = \<lparr>cfg_event_queue_size = 32, cfg_password = None, cfg_use_scram = False,
     cfg_max_message_size = 2 * 1024 * 1024\<rparr>"

text \<open>The body of \<open>fuzz_mitm.c\<close> between the set-up and the clean-up.\<close>

definition fuzz_session :: "(nat \<Rightarrow> env) \<Rightarrow> heap \<Rightarrow> mitm_ctx \<Rightarrow> bytes \<Rightarrow> heap option option" where
  "fuzz_session E h m data =
     (case feed_at (E 3) h (mi_client m) data of
        None \<Rightarrow> None
      | Some None \<Rightarrow> Some None
      | Some (Some h) \<Rightarrow>
          (case mitm_steps (\<lambda>i. E (4 + i)) 8 h m of
             None \<Rightarrow> None
           | Some None \<Rightarrow> Some None
           | Some (Some h) \<Rightarrow>
               Some (do { h \<leftarrow> drain_at h (mi_client m); drain_at h (mi_server m) })))"

definition enable_all :: "mitm_ctx option \<Rightarrow> int list \<Rightarrow> mitm_ctx option option" where
  "enable_all mitm ids = foldl (\<lambda>r i. Option.bind r (\<lambda>mitm. mitm_enable_attack mitm i)) (Some mitm) ids"

text \<open>The clean-up of the two contexts, the same on all paths.\<close>

definition destroy_both :: "heap \<Rightarrow> nat option \<Rightarrow> nat option \<Rightarrow> heap option" where
  "destroy_both h client server = do { h \<leftarrow> destroy_at h client; destroy_at h server }"

text \<open>The third component is the relay object that is left, if any.\<close>

definition fuzz_mitm :: "(nat \<Rightarrow> env) \<Rightarrow> bytes \<Rightarrow> (int \<times> heap \<times> mitm_ctx option) option option" where
  "fuzz_mitm E data =
     (if data = [] then Some (Some (0, Map.empty, None))
      else
        let (h, client) = new_ctx Map.empty 0
              (pqwire_create_with_config (E 0) PQWIRE_ROLE_CLIENT (Some fuzz_mitm_config));
            (h, server) = new_ctx h 1
              (pqwire_create_with_config (E 1) PQWIRE_ROLE_SERVER (Some fuzz_mitm_config))
        in if client = None \<or> server = None
           then Some (do { h \<leftarrow> destroy_both h client server; Some (0, h, None) })
           else case mitm_create (E 2) client server of
                  None \<Rightarrow> Some (do { h \<leftarrow> destroy_both h client server; Some (0, h, None) })
                | Some m \<Rightarrow>
                    (case enable_all (Some m)
                            [MITM_ATTACK_DROP_MESSAGE, MITM_ATTACK_CORRUPT_LENGTH, MITM_ATTACK_FLIP_BITS] of
                       Some (Some m) \<Rightarrow>
                         (case fuzz_session E h m data of
                            None \<Rightarrow> None
                          | Some None \<Rightarrow> Some None
                          | Some (Some h) \<Rightarrow> Some (do {
                              let left = (if mitm_destroy (Some m) then None else Some m);
                              h \<leftarrow> destroy_both h client server;
                              Some (0, h, left)
                            }))
                     | _ \<Rightarrow> Some None))"

section \<open>A relay with nothing to relay\<close>

lemma relay_silent:
  assumes "h a = Some c" "wf_output c" "output_len c = 0"
  shows "relay E h a b = Some (Some h)"
proof -
  have "pqwire_get_output c (Some 4096) = Some ([], c)"
    using assms(2,3) by (simp add: pqwire_get_output_def)
  then show ?thesis using assms(1) by (simp add: relay_def fun_upd_idem)
qed

lemma mitm_steps_silent:
  assumes "h (mi_client m) = Some c" "wf_output c" "output_len c = 0"
    "h (mi_server m) = Some s" "wf_output s" "output_len s = 0"
  shows "mitm_steps E n h m = Some (Some h)"
  using relay_silent [of h "mi_client m"] relay_silent [of h "mi_server m"] assms
  by (induction n) (simp_all add: mitm_step_def)

lemma drain_at_ok:
  assumes "h a = Some c" "live c"
  shows "\<exists>c'. drain_at h a = Some (h(a \<mapsto> c')) \<and> live c'"
  using drain_events_ok [OF liveD(1,2) [OF assms(2)]] assms live_drained by (fastforce simp: drain_at_def)

lemma drain_at_empty: "h a = Some c \<Longrightarrow> event_count c = 0 \<Longrightarrow> drain_at h a = Some h"
  by (simp add: drain_at_def drain_events.simps [of c] pqwire_next_event_def dequeue_event_def fun_upd_idem)

lemma create_empty:
  assumes "pqwire_create_with_config E r cfg = Some c"
  shows "output_len c = 0" "event_count c = 0" "input_len c = 0"
  using assms by (auto simp: pqwire_create_with_config_def Let_def split: option.splits if_splits)

lemma created_empty: "created c \<Longrightarrow> output_len c = 0 \<and> event_count c = 0 \<and> input_len c = 0"
  using create_empty unfolding created_def by blast

lemma fuzz_session_ok:
  assumes "mi_client m \<noteq> mi_server m" "h (mi_client m) = Some c" "h (mi_server m) = Some s" "created c" "created s"
    "length data < 2 ^ 32"
  shows "\<exists>c'. fuzz_session E h m data = Some (Some (h(mi_client m \<mapsto> c'))) \<and> live c'"
proof -
  have l: "live c" "live s" using assms(4,5) by (simp_all add: live_created)
  have "input_len c + length data < 2 ^ 32" using created_empty [OF assms(4)] assms(6) by simp
  from feed_input_moved [OF liveD(1,2) [OF l(1)] this, of "E 3"] obtain n c1 where
    c1: "pqwire_feed_input (E 3) c (Some data) = Some (Some (n, c1))" "moved c c1" by blast
  have lc: "live c1" by (rule live_moved [OF l(1) c1(2)])
  have o: "output_len c1 = 0" "output_len s = 0" "event_count s = 0"
    using movedD(2) [OF c1(2)] created_empty [OF assms(4)] created_empty [OF assms(5)] by (simp_all add: settings_def)
  let ?h = "h(mi_client m \<mapsto> c1)"
  have h: "?h (mi_client m) = Some c1" "?h (mi_server m) = Some s" using assms(1,3) by auto
  have st: "mitm_steps (\<lambda>i. E (4 + i)) 8 ?h m = Some (Some ?h)"
    by (rule mitm_steps_silent [OF h(1) liveD(3) [OF lc] o(1) h(2) liveD(3) [OF l(2)] o(2)])
  obtain c' where c': "drain_at ?h (mi_client m) = Some (?h(mi_client m \<mapsto> c'))" "live c'"
    using drain_at_ok [of ?h, OF h(1) lc] by blast
  have "drain_at (?h(mi_client m \<mapsto> c')) (mi_server m) = Some (?h(mi_client m \<mapsto> c'))"
    by (rule drain_at_empty [where c = s, OF _ o(3)]) (use assms(1,3) in auto)
  with c' st c1(1) assms(2) show ?thesis by (auto simp: fuzz_session_def feed_at_def)
qed

lemma live_create: "pqwire_create_with_config E r cfg = Some c \<Longrightarrow> live c"
  by (rule live_created) (auto simp: created_def)

lemma destroy_at_live: "h a = Some c \<Longrightarrow> live c \<Longrightarrow> destroy_at h (Some a) = Some (h(a := None))"
  using liveD(2) by (simp add: destroy_at_def pqwire_destroy_def)

lemma destroy_at_null [simp]: "destroy_at h None = Some h"
  by (simp add: destroy_at_def)

lemma destroy_at_only [simp]: "live c \<Longrightarrow> destroy_at [a \<mapsto> c] (Some a) = Some Map.empty"
  using destroy_at_live [of "[a \<mapsto> c]" a c] by simp

lemma destroy_both_live:
  assumes "a \<noteq> b" "h a = Some c" "live c" "h b = Some s" "live s"
  shows "destroy_both h (Some a) (Some b) = Some (h(a := None, b := None))"
proof -
  have "(h(a := None)) b = Some s" using assms(1,4) by simp
  then show ?thesis
    using destroy_at_live [of h a c] destroy_at_live [of "h(a := None)" b s] assms(2,3,5) by (simp add: destroy_both_def)
qed

lemma enable_all_ok: "wf_mitm m \<Longrightarrow> \<exists>m'. enable_all (Some m) ids = Some (Some m') \<and> wf_mitm m' \<and>
    mi_client m' = mi_client m \<and> mi_server m' = mi_server m"
proof (induction ids rule: rev_induct)
  case (snoc i ids)
  then obtain m1 where m1: "enable_all (Some m) ids = Some (Some m1)" "wf_mitm m1" "mi_client m1 = mi_client m"
    "mi_server m1 = mi_server m" by blast
  from enable_attack_ok [OF m1(2), of i] m1 show ?case by (auto simp: enable_all_def)
qed (simp add: enable_all_def)

lemma fuzz_pqwire_ok:
  assumes "length data < 2 ^ 32"
  shows "fuzz_pqwire E data = Some (Some (0, Map.empty))"
proof (cases "pqwire_create_with_config (E 0) PQWIRE_ROLE_CLIENT (Some fuzz_config)")
  case (Some c)
  then have c: "created c" by (auto simp: created_def)
  have "input_len c + length data < 2 ^ 32" using created_empty [OF c] assms by simp
  from live_feed [OF live_created [OF c], of "Some data" "E 1"] this obtain n c1 where
    c1: "pqwire_feed_input (E 1) c (Some data) = Some (Some (n, c1))" "live c1" by (auto simp: c_str_def)
  obtain c2 where c2: "drain_at [0 \<mapsto> c1] 0 = Some ([0 \<mapsto> c1](0 \<mapsto> c2))" "live c2"
    using drain_at_ok [of "[0 \<mapsto> c1]" 0 c1] c1(2) by auto
  with c1(1) c2(1) Some show ?thesis by (simp add: fuzz_pqwire_def new_ctx_def feed_at_def)
qed (simp add: fuzz_pqwire_def new_ctx_def)

lemma fuzz_mitm_run:
  assumes "data \<noteq> []" "length data < 2 ^ 32" "mitm_create (E 2) (Some 0) (Some 1) = Some m"
    "pqwire_create_with_config (E 0) PQWIRE_ROLE_CLIENT (Some fuzz_mitm_config) = Some c"
    "pqwire_create_with_config (E 1) PQWIRE_ROLE_SERVER (Some fuzz_mitm_config) = Some s"
  shows "fuzz_mitm E data = Some (Some (0, Map.empty, None))"
proof -
  let ?ids = "[MITM_ATTACK_DROP_MESSAGE, MITM_ATTACK_CORRUPT_LENGTH, MITM_ATTACK_FLIP_BITS]"
  let ?h = "[0 \<mapsto> c, 1 \<mapsto> s]"
  have m: "wf_mitm m" "mi_client m = 0" "mi_server m = 1"
    using assms(3) by (auto simp: mitm_create_def wf_mitm_def split: if_splits)
  obtain m' where m': "enable_all (Some m) ?ids = Some (Some m')" "mi_client m' = 0" "mi_server m' = 1"
    using enable_all_ok [OF m(1), of ?ids] m by auto
  have cr: "created c" "created s" using assms(4,5) by (auto simp: created_def)
  from fuzz_session_ok [of m' ?h c s data E] obtain c' where
    c': "fuzz_session E ?h m' data = Some (Some (?h(0 \<mapsto> c')))" "live c'"
    using m' cr assms(2) by auto
  have d: "destroy_both (?h(0 \<mapsto> c')) (Some 0) (Some 1) = Some Map.empty"
    using destroy_both_live [of 0 1 "?h(0 \<mapsto> c')" c' s] c'(2) live_created [OF cr(2)] by (auto simp: fun_eq_iff)
  show ?thesis
    unfolding fuzz_mitm_def new_ctx_def
    using assms m'(1) c'(1) d by (simp add: mitm_destroy_def del: fun_upd_apply)
qed

lemma fuzz_mitm_ok:
  assumes "length data < 2 ^ 32"
  shows "fuzz_mitm E data = Some (Some (0, Map.empty, None))"
proof -
  let ?c = "pqwire_create_with_config (E 0) PQWIRE_ROLE_CLIENT (Some fuzz_mitm_config)"
  let ?s = "pqwire_create_with_config (E 1) PQWIRE_ROLE_SERVER (Some fuzz_mitm_config)"
  consider (run) c s m where "data \<noteq> []" "?c = Some c" "?s = Some s" "mitm_create (E 2) (Some 0) (Some 1) = Some m"
    | (stop) "data = []" | (none) "data \<noteq> []" "?c = None" "?s = None"
    | (client) c where "data \<noteq> []" "?c = Some c" "?s = None"
    | (server) s where "data \<noteq> []" "?c = None" "?s = Some s"
    | (no_mitm) c s where "data \<noteq> []" "?c = Some c" "?s = Some s" "mitm_create (E 2) (Some 0) (Some 1) = None"
    by fastforce
  then show ?thesis
  proof cases
    case run
    then show ?thesis using fuzz_mitm_run [OF run(1) assms run(4,2,3)] by simp
  next
    case client
    then have "live c" by (simp add: live_create)
    with client show ?thesis
      by (simp add: fuzz_mitm_def new_ctx_def destroy_both_def)
  next
    case server
    then have "live s" by (simp add: live_create)
    with server show ?thesis
      by (simp add: fuzz_mitm_def new_ctx_def destroy_both_def)
  next
    case no_mitm
    then have "live c" "live s" by (simp_all add: live_create)
    then have "destroy_both [0 \<mapsto> c, 1 \<mapsto> s] (Some 0) (Some 1) = Some Map.empty"
      using destroy_both_live [of 0 1 "[0 \<mapsto> c, 1 \<mapsto> s]" c s] by (auto simp: fun_eq_iff)
    with no_mitm show ?thesis by (simp add: fuzz_mitm_def new_ctx_def)
  qed (simp_all add: fuzz_mitm_def new_ctx_def destroy_both_def)
qed

section \<open>Properties\<close>

text \<open>
  C13. Both harnesses end on every input below 4 GiB, whatever allocations fail: they return 0,
  fault nowhere, and leave neither a context nor a relay behind, so every object they created
  has been freed, on the failure paths too.
\<close>

theorem fuzz_harnesses_return:
  assumes "length data < 2 ^ 32"
  shows "fuzz_pqwire E data = Some (Some (0, Map.empty)) \<and>
     fuzz_mitm E data = Some (Some (0, Map.empty, None))"
  using fuzz_pqwire_ok [OF assms, of E] fuzz_mitm_ok [OF assms, of E] by blast

theorem fuzz_harnesses_return_witness:
  "fuzz_pqwire (\<lambda>_. roomy_env) [90, 0, 0, 0, 5, 73] = Some (Some (0, Map.empty)) \<and>
   fuzz_mitm (\<lambda>_. roomy_env) [90, 0, 0, 0, 5, 73] = Some (Some (0, Map.empty, None))"
  by (rule fuzz_harnesses_return) simp

text \<open>
  C34. The relay harness relays nothing: feeding bytes into a fresh client never makes it send
  anything, so the steps move no data, and the server context is at the end what it was when
  it was created, whatever the input.
\<close>

theorem fuzz_mitm_relays_nothing:
  assumes "mi_client m \<noteq> mi_server m" "h (mi_client m) = Some c" "h (mi_server m) = Some s" "created c" "created s"
    "length data < 2 ^ 32"
  shows "\<exists>h'. fuzz_session E h m data = Some (Some h') \<and> h' (mi_server m) = Some s"
  using fuzz_session_ok [OF assms, of E] assms(1,3) by fastforce

theorem fuzz_mitm_relays_nothing_witness:
  "\<exists>h'. fuzz_session (\<lambda>_. roomy_env) two_fresh new_mitm [90, 0, 0, 0, 5, 73] = Some (Some h') \<and>
     h' (mi_server new_mitm) = Some (fresh_ctx PQWIRE_ROLE_SERVER)"
  by (rule fuzz_mitm_relays_nothing [where c = "fresh_ctx PQWIRE_ROLE_CLIENT"])
    (simp_all add: new_mitm_def two_fresh_def)

end
