(* ===== verification/Spec2Isabelle.thy ===== *)
theory Spec2Isabelle
  imports Fuzz
begin

text \<open>
  \<^bold>\<open>libpqwire\<close>: a verification development for the PostgreSQL wire-protocol library of this
  repository (\<open>src/src/pqwire.c\<close>, \<open>src/src/scram.c\<close>, \<open>src/src/mitm.c\<close>, their headers under
  \<open>src/include\<close>, and the harnesses under \<open>src/fuzz\<close>).

  \<^bold>\<open>The program.\<close> A context (\<open>struct pqwire_ctx\<close>) in the role of a client or a server does no
  I/O of its own. The application feeds it received bytes (\<open>pqwire_feed_input\<close>), which are
  buffered, cut into messages and parsed into events on a bounded ring; takes events off the
  ring (\<open>pqwire_next_event\<close>); calls serialisers (\<open>pqwire_send_*\<close>), which append messages to
  an output buffer; and takes bytes to send off that buffer (\<open>pqwire_get_output\<close>). On top of
  this are helpers for proxies (observing a backend pipeline, rewriting a Bind so that it
  carries an identity), a SCRAM-SHA-256 client, and a relay that joins two contexts. Events of a
  Bind or a DataRow do not own their data: they point into buffers of the context.

  \<^bold>\<open>Theories\<close>, in the order of their imports, with what they model and show.

  \<^item> \<open>Prelude\<close>: machine types, checked memory access (\<open>peek\<close>, \<open>store\<close>, \<open>mem_read\<close>, \<open>poke\<close>),
    shared lemmas and the collections \<open>wire_simps\<close> and \<open>no_fault\<close>.
  \<^item> \<open>Bytes\<close>: big-endian fields, NUL-terminated strings and counted arrays (\<open>wr32_be\<close> to
    \<open>copy_cstr\<close>). Locale \<open>field_codec\<close>, interpreted for 32-bit and 16-bit fields.
  \<^item> \<open>Events\<close>: the types of \<open>protocol_events.h\<close>, with pointers as values.
  \<^item> \<open>Sha256\<close>, \<open>Scram\<close>: \<open>scram.c\<close>. The streaming hash equals hashing the whole input (locale
    \<open>stream_hash\<close>), HMAC and PBKDF2 equal their definitions over that hash, the client steps
    derive the keys; the message schedule is shown to differ from SHA-256.
  \<^item> \<open>Context\<close>: \<open>struct pqwire_ctx\<close>, event ring, output buffer, life cycle. The ring refines a
    bounded FIFO (locale \<open>bounded_queue\<close>), the output buffer a byte queue (\<open>byte_queue\<close>).
  \<^item> \<open>Parsers\<close>: every message parser and \<open>handle_message\<close>: no parser leaves an object, on any
    body, and all preserve \<open>wf_ctx\<close>.
  \<^item> \<open>Feed\<close>: \<open>pqwire_feed_input\<close>. It returns on all inputs below 4 GiB, and refines framing of
    the byte stream without any buffer (\<open>frame_run\<close>), from which it follows that the cutting
    of the stream into calls does not matter. The locale \<open>hidden_update\<close> says that handlers do
    not look at parts of the context, interpreted here for the input buffer and in \<open>Mitm\<close> for
    the output buffer.
  \<^item> \<open>Senders\<close>: every \<open>pqwire_send_*\<close>, what each puts out and when it fails.
  \<^item> \<open>Roundtrip\<close>: each serialiser against the parser of the peer, through both buffers.
  \<^item> \<open>Params\<close>, \<open>Pipeline\<close>: Bind parameters, identity injection by copy and by zero-copy
    rewrite, prepared-statement records; the pipeline status of a proxy.
  \<^item> \<open>Stream_Feed\<close>: several messages in one feed, and what becomes of the pointers of a Bind
    when the input buffer is moved under them.
  \<^item> \<open>Phase\<close>: the protocol and authentication states as an inductive step relation labelled by
    messages; \<open>labels\<close> cuts a byte stream into messages without a context, and a feed takes the
    context where the machine goes on the messages of the stream.
  \<^item> \<open>Machine\<close>: all public operations as calls; contexts reachable by calls; the locale
    \<open>sound_machine\<close> (progress and preservation), interpreted for one context (\<open>api\<close>).
  \<^item> \<open>Mitm\<close>: \<open>mitm.c\<close> over a heap of contexts; the attack array as a bounded list; the system of
    two contexts and a relay as a \<open>sound_machine\<close> (\<open>sys\<close>); the relay delivers both streams
    while no input buffer has to grow, and loses bytes when one cannot.
  \<^item> \<open>Fuzz\<close>: the harnesses of \<open>src/fuzz\<close> with the heap of the objects they create; both return
    on every input and leave the heap empty.

  \<^bold>\<open>Conventions.\<close> Where nothing else is said, the result \<open>None\<close> of an operation is a fault, an
  access outside an object; return codes and \<open>NULL\<close> are ordinary values. Operations that contain
  the message loop have results in \<open>'a option option\<close>: \<open>None\<close> means that the loop does not
  return, which \<open>partial_function\<close> makes a value, and \<open>Some None\<close> is a fault. No fuel is used.
  All other loops are structural or have a termination proof. \<open>size_t\<close> has 64 bits and sizes are
  \<open>nat\<close>; 32-bit and 16-bit quantities are words and wrap as in the code. The environment record
  \<open>env\<close> supplies which allocations succeed, the contents of fresh memory and the values of
  \<open>rand()\<close>; theorems hold for every environment unless they say \<open>can_grow\<close>. A context that
  fails the magic-number test stands for the \<open>NULL\<close> handle as well, since the code treats both
  alike. Pointers through which a caller receives results (the event of \<open>pqwire_next_event\<close>, the
  slots of \<open>pqwire_bind_inject_identity\<close>, the lengths of the zero-copy rewrite) are taken to be
  valid; the code's tests of them for \<open>NULL\<close> have no counterpart. Owned parameter blocks are
  values, so that freeing one twice cannot be expressed. The two feeds of one relay step share
  an environment.

  \<^bold>\<open>Bounds.\<close> Feeding is shown total while the buffered input stays below \<open>2 ^ 32\<close> bytes: the code
  subtracts \<open>1 + mlen\<close> computed in 32 bits, and \<open>feed_input_diverges\<close> shows that the bound cannot
  be dropped. The other limits in hypotheses are those of the headers (\<open>PQWIRE_MAX_*\<close>), of the
  initial capacity of a buffer where a serialiser refuses more, or of a 32-bit length field.

  \<^bold>\<open>Not modelled.\<close> \<open>src/examples\<close> consists of templates stopped by \<open>#error\<close>; \<open>src/tests\<close> are
  drivers for the operations modelled here. The addresses of the C heap are not modelled: a
  pointer of an event names its object, an offset and, for the input buffer, the allocation it
  belongs to. Concurrency does not occur: a context is used by one thread.
\<close>

end
